theory Spec2Isabelle
  imports Main "HOL-Library.Sublist" "HOL-Library.Multiset"
begin

section \<open>game-code-normalizer: a shallow embedding of index.js\<close>

text \<open>
  The development follows \<^verbatim>\<open>src/index.js\<close> line by line. JavaScript values,
  the implicit \<^verbatim>\<open>TypeError\<close>s of the language, the property order of objects and the
  clock read by \<^verbatim>\<open>new Date()\<close> are made explicit.

  Scope of the value model.
  \<^item> Text is a list of 8-bit characters; the model is exact for ASCII text. Within
    ASCII the white space of \<^verbatim>\<open>trim\<close> and of the regular expression class
    \<^verbatim>\<open>\s\<close> is TAB, LF, VT, FF, CR and SPACE, and \<^verbatim>\<open>toUpperCase\<close> maps
    \<^verbatim>\<open>a-z\<close> to \<^verbatim>\<open>A-Z\<close> and leaves every other character alone.
  \<^item> A number is \<^verbatim>\<open>NaN\<close>, zero (of either sign), or any other number; the program
    sees a number only through \<^verbatim>\<open>||\<close> and \<^verbatim>\<open>String(...)\<close>, so a number of the
    last kind is given by the text \<^verbatim>\<open>String(...)\<close> yields for it.
  \<^item> An object is given by its own string-keyed data properties and by what its conversion
    to text yields, so objects with methods of their own and objects without a prototype
    are among the values. Arrays are dense and convert through the inherited
    \<^verbatim>\<open>join\<close>. Reading a property runs no code (no getters, no proxies), and there are
    no functions, symbols or big integers among the inputs.
  \<^item> In a configuration object the two length bounds are integers and the two pattern
    tables map patterns to text labels, as \<^verbatim>\<open>index.d.ts\<close> declares them.

  A name of the source that is a keyword of Isabelle or a constant of its library carries a
  prime: \<open>includes'\<close>, \<open>length'\<close>, \<open>prefixes'\<close>, \<open>keywords'\<close>.
\<close>

subsection \<open>JavaScript values\<close>

text \<open>
  What a call can raise: the \<^verbatim>\<open>TypeError\<close> of the language, or whatever a method of
  an input object throws.
\<close>

datatype js_error = TypeError | Thrown

text \<open>
  \<open>Nonzero t\<close> is a number other than zero and \<^verbatim>\<open>NaN\<close> whose text is \<open>t\<close>:
  \<open>Nonzero ''25''\<close>, \<open>Nonzero ''-1.5''\<close>, \<open>Nonzero ''1e+21''\<close>, \<open>Nonzero ''Infinity''\<close>.
\<close>

datatype jsnumber = NaN | Zero | Nonzero string

text \<open>
  \<open>JObj fs conv\<close> is an object with the own data properties \<open>fs\<close>; \<open>conv\<close> is what
  \<^verbatim>\<open>String(...)\<close> of the object yields through its \<^verbatim>\<open>toString\<close> and
  \<^verbatim>\<open>valueOf\<close> methods, own or inherited: a text, or a raise.
\<close>

datatype jsval =
    JUndefined
  | JNull
  | JBool bool
  | JNum jsnumber
  | JStr string
  | JArr "jsval list"
  | JObj "(string \<times> jsval) list" "js_error + string"

text \<open>
  An object literal with data properties only. The inherited \<^verbatim>\<open>toString\<close> answers
  \<^verbatim>\<open>[object Object]\<close>. With an own data property \<^verbatim>\<open>toString\<close> there is no
  callable \<^verbatim>\<open>toString\<close>, the inherited \<^verbatim>\<open>valueOf\<close> returns the object itself
  (and an own data property \<^verbatim>\<open>valueOf\<close> is not callable either), so the conversion
  raises \<^verbatim>\<open>TypeError\<close>.
\<close>

definition plainObject :: "(string \<times> jsval) list \<Rightarrow> jsval" where
  "plainObject fs =
     JObj fs (if ''toString'' \<in> set (map fst fs) then Inl TypeError else Inr ''[object Object]'')"

text \<open>\<^verbatim>\<open>ToBoolean\<close>: what \<^verbatim>\<open>x || ''\<close> tests.\<close>

fun toBoolean :: "jsval \<Rightarrow> bool" where
  "toBoolean JUndefined = False"
| "toBoolean JNull = False"
| "toBoolean (JBool b) = b"
| "toBoolean (JNum n) = (case n of Nonzero t \<Rightarrow> True | _ \<Rightarrow> False)"
| "toBoolean (JStr s) = (s \<noteq> [])"
| "toBoolean (JArr xs) = True"
| "toBoolean (JObj fs conv) = True"

text \<open>\<^verbatim>\<open>a || b\<close> on values.\<close>

definition jsOr :: "jsval \<Rightarrow> jsval \<Rightarrow> jsval" where
  "jsOr a b = (if toBoolean a then a else b)"

text \<open>\<^verbatim>\<open>Number.prototype.toString\<close>\<close>

fun numberToString :: "jsnumber \<Rightarrow> string" where
  "numberToString NaN = ''NaN''"
| "numberToString Zero = ''0''"
| "numberToString (Nonzero t) = t"

text \<open>
  \<^verbatim>\<open>String(v)\<close>. A primitive always has a text. An array is joined with commas,
  \<^verbatim>\<open>undefined\<close> and \<^verbatim>\<open>null\<close> elements giving the empty text and the first
  element that raises ending the conversion. An object yields what its methods yield.
\<close>

fun toString :: "jsval \<Rightarrow> js_error + string"
  and arrayJoin :: "jsval list \<Rightarrow> js_error + string" where
  "toString JUndefined = Inr ''undefined''"
| "toString JNull = Inr ''null''"
| "toString (JBool b) = Inr (if b then ''true'' else ''false'')"
| "toString (JNum n) = Inr (numberToString n)"
| "toString (JStr s) = Inr s"
| "toString (JArr xs) = arrayJoin xs"
| "toString (JObj fs conv) = conv"
| "arrayJoin [] = Inr []"
| "arrayJoin (x # xs) =
     (case (if x = JUndefined \<or> x = JNull then Inr [] else toString x) of
        Inl e \<Rightarrow> Inl e
      | Inr s \<Rightarrow>
          (if xs = [] then Inr s
           else (case arrayJoin xs of Inl e \<Rightarrow> Inl e | Inr t \<Rightarrow> Inr (s @ '','' @ t))))"

text \<open>
  Reading a property of the input. In an object literal a later binding of a key overrides
  an earlier one. An array has neither a \<^verbatim>\<open>code\<close> nor a \<^verbatim>\<open>meta\<close> property.
\<close>

fun getProp :: "jsval \<Rightarrow> string \<Rightarrow> jsval" where
  "getProp (JObj fs conv) k = (case map_of (rev fs) k of Some v \<Rightarrow> v | None \<Rightarrow> JUndefined)"
| "getProp _ k = JUndefined"

text \<open>\<^verbatim>\<open>input !== null && typeof input === 'object'\<close>\<close>

fun isObject :: "jsval \<Rightarrow> bool" where
  "isObject (JArr xs) = True"
| "isObject (JObj fs conv) = True"
| "isObject _ = False"

subsection \<open>Text operations\<close>

definition isSpace :: "char \<Rightarrow> bool" where
  "isSpace c = (c = CHR 0x09 \<or> c = CHR 0x0A \<or> c = CHR 0x0B \<or> c = CHR 0x0C \<or> c = CHR 0x0D \<or> c = CHR '' '')"

text \<open>\<^verbatim>\<open>String.prototype.trim\<close>\<close>

definition trim :: "string \<Rightarrow> string" where
  "trim s = rev (dropWhile isSpace (rev (dropWhile isSpace s)))"

text \<open>\<^verbatim>\<open>.replace(/[\s-]/g, '')\<close>\<close>

definition removeSeparators :: "string \<Rightarrow> string" where
  "removeSeparators s = filter (\<lambda>c. \<not> (isSpace c \<or> c = CHR ''-'')) s"

definition toUpperChar :: "char \<Rightarrow> char" where
  "toUpperChar c =
     (let n = (of_char c :: nat) in if 97 \<le> n \<and> n \<le> 122 then char_of (n - 32) else c)"

text \<open>\<^verbatim>\<open>String.prototype.toUpperCase\<close>\<close>

definition toUpperCase :: "string \<Rightarrow> string" where
  "toUpperCase s = map toUpperChar s"

text \<open>A character of the class \<^verbatim>\<open>[A-Z0-9]\<close>.\<close>

definition isUpperAlnum :: "char \<Rightarrow> bool" where
  "isUpperAlnum c =
     (let n = (of_char c :: nat) in (65 \<le> n \<and> n \<le> 90) \<or> (48 \<le> n \<and> n \<le> 57))"

text \<open>\<^verbatim>\<open>/[^A-Z0-9]/.test(s)\<close>\<close>

definition hasInvalidChar :: "string \<Rightarrow> bool" where
  "hasInvalidChar s = list_ex (\<lambda>c. \<not> isUpperAlnum c) s"

text \<open>\<^verbatim>\<open>s.includes(p)\<close>: \<open>p\<close> occurs in \<open>s\<close> as a contiguous block.\<close>

fun includes' :: "string \<Rightarrow> string \<Rightarrow> bool" where
  "includes' [] p = (p = [])"
| "includes' (c # cs) p = (prefix p (c # cs) \<or> includes' cs p)"

text \<open>\<^verbatim>\<open>xs.indexOf(x)\<close>, \<open>-1\<close> when \<open>x\<close> is not an element.\<close>

fun indexOf :: "'a list \<Rightarrow> 'a \<Rightarrow> int" where
  "indexOf [] x = - 1"
| "indexOf (y # ys) x =
     (if y = x then 0 else (let i = indexOf ys x in if i = - 1 then - 1 else i + 1))"

subsection \<open>Objects as ordered property lists\<close>

text \<open>
  A pattern table is an object whose keys are the patterns and whose values are the labels.
  It is kept as the list of its properties in creation order. \<^verbatim>\<open>Object.entries\<close> and
  the spread \<^verbatim>\<open>{...a, ...b}\<close> enumerate the array-index keys first, in ascending
  numeric order, and then the other keys in creation order.
\<close>

type_synonym table = "(string \<times> string) list"

definition isDigit :: "char \<Rightarrow> bool" where
  "isDigit c = (let n = (of_char c :: nat) in 48 \<le> n \<and> n \<le> 57)"

definition parseNat :: "string \<Rightarrow> int" where
  "parseNat s = foldl (\<lambda>a c. 10 * a + (of_char c - 48)) 0 s"

text \<open>A canonical numeric key below \<open>2^32 - 1\<close>.\<close>

definition isArrayIndex :: "string \<Rightarrow> bool" where
  "isArrayIndex k =
     (k \<noteq> [] \<and> list_all isDigit k \<and> (if hd k = CHR ''0'' then k = ''0'' else True)
        \<and> parseNat k < 4294967295)"

text \<open>\<^verbatim>\<open>Object.entries(o)\<close>\<close>

definition entries :: "table \<Rightarrow> table" where
  "entries t =
     sort_key (\<lambda>kv. parseNat (fst kv)) (filter (\<lambda>kv. isArrayIndex (fst kv)) t)
       @ filter (\<lambda>kv. \<not> isArrayIndex (fst kv)) t"

text \<open>\<^verbatim>\<open>o[k] = v\<close>: an existing property keeps its place, a new one is created last.\<close>

fun setProp :: "table \<Rightarrow> string \<Rightarrow> string \<Rightarrow> table" where
  "setProp [] k v = [(k, v)]"
| "setProp ((k', v') # t) k v = (if k' = k then (k, v) # t else (k', v') # setProp t k v)"

text \<open>\<^verbatim>\<open>{ ...a, ...b }\<close>\<close>

definition spread :: "table \<Rightarrow> table \<Rightarrow> table" where
  "spread a b = fold (\<lambda>kv t. setProp t (fst kv) (snd kv)) (entries b)
                  (fold (\<lambda>kv t. setProp t (fst kv) (snd kv)) (entries a) [])"

subsection \<open>Configuration and result\<close>

text \<open>
  The configuration object: an absent (or nullish) \<^verbatim>\<open>minLength\<close> or
  \<^verbatim>\<open>maxLength\<close> is \<open>None\<close>; an absent pattern table spreads like the empty one.
\<close>

record config =
  minLength :: "int option"
  maxLength :: "int option"
  prefixes' :: table
  keywords' :: table

text \<open>
  The second argument of a call: left out (\<^verbatim>\<open>undefined\<close>, so the default
  \<^verbatim>\<open>{}\<close> applies), \<^verbatim>\<open>null\<close> (the default does not apply), or an object.
\<close>

datatype config_arg = ConfigOmitted | ConfigNull | ConfigObj config

definition emptyConfig :: config where
  "emptyConfig = \<lparr>minLength = None, maxLength = None, prefixes' = [], keywords' = []\<rparr>"

record result =
  normalized :: string
  raw :: string
  isValidFormat :: bool
  probableType :: string
  hints :: "string list"
  status :: string
  length' :: int
  createdAt :: string
  meta :: "jsval option"

definition DEFAULT_MIN_LENGTH :: int where
  "DEFAULT_MIN_LENGTH = 4"

definition DEFAULT_MAX_LENGTH :: int where
  "DEFAULT_MAX_LENGTH = 16"

definition DEFAULT_PREFIXES :: table where
  "DEFAULT_PREFIXES = [(''IKES'', ''class_reroll'')]"

definition DEFAULT_KEYWORDS :: table where
  "DEFAULT_KEYWORDS =
     [(''MERR'', ''event_reward''),
      (''STAT'', ''stat_reset''),
      (''COIN'', ''currency''),
      (''GEM'', ''currency''),
      (''CASH'', ''currency'')]"

subsection \<open>normalizeCode\<close>

text \<open>
  One turn of either pattern loop. The loop state is
  \<open>(hints, probableType, typeAlreadySet)\<close>.
\<close>

type_synonym scan = "string list \<times> string \<times> bool"

definition matchStep :: "string \<Rightarrow> string \<Rightarrow> string \<times> string \<Rightarrow> scan \<Rightarrow> scan" where
  "matchStep tag normalized' entry st =
     (case entry of (pattern, type) \<Rightarrow>
      (case st of (hints', probableType', typeAlreadySet) \<Rightarrow>
         if includes' normalized' pattern
         then (hints' @ [tag @ pattern],
               if \<not> typeAlreadySet then type else probableType',
               True)
         else st))"

text \<open>The replacement of \<^verbatim>\<open>KEYWORD:MERR\<close> at its first index.\<close>

definition rewriteMerr :: "string list \<Rightarrow> string list" where
  "rewriteMerr hints' =
     (let merrKeywordIndex = indexOf hints' ''KEYWORD:MERR''
      in if merrKeywordIndex \<noteq> - 1 then hints'[nat merrKeywordIndex := ''EVENT:MERRY''] else hints')"

text \<open>
  Reading a property of \<^verbatim>\<open>config\<close>: on \<^verbatim>\<open>null\<close> the read raises.
\<close>

fun readConfig :: "config_arg \<Rightarrow> js_error + config" where
  "readConfig ConfigOmitted = Inr emptyConfig"
| "readConfig ConfigNull = Inl TypeError"
| "readConfig (ConfigObj c) = Inr c"

text \<open>
  \<open>now\<close> is the text \<^verbatim>\<open>new Date().toISOString()\<close> returns during the call.
  A local variable of the source that shares its name with a field of the result or of the
  configuration carries one more prime than the field.
\<close>

definition normalizeCode :: "string \<Rightarrow> jsval \<Rightarrow> config_arg \<Rightarrow> js_error + result" where
  "normalizeCode now input config =
     (let isObjectInput = isObject input in
      case toString (if isObjectInput then jsOr (getProp input ''code'') (JStr [])
                     else jsOr input (JStr [])) of
        Inl e \<Rightarrow> Inl e
      | Inr rawCode \<Rightarrow>
     (let meta' = (if isObjectInput then getProp input ''meta'' else JUndefined) in
      case readConfig config of
        Inl e \<Rightarrow> Inl e
      | Inr cfg \<Rightarrow>
     (let minLength' = (case minLength cfg of None \<Rightarrow> DEFAULT_MIN_LENGTH | Some n \<Rightarrow> n);
          maxLength' = (case maxLength cfg of None \<Rightarrow> DEFAULT_MAX_LENGTH | Some n \<Rightarrow> n);
          prefixes'' = spread DEFAULT_PREFIXES (prefixes' cfg);
          keywords'' = spread DEFAULT_KEYWORDS (keywords' cfg);
          normalized' = toUpperCase (removeSeparators (trim rawCode));
          hasInvalidChars = hasInvalidChar normalized';
          hints0 = (if hasInvalidChars then [''INVALID:CHAR''] else []);
          length'' = int (length normalized');
          isLengthValid = (length'' \<ge> minLength' \<and> length'' \<le> maxLength');
          isValidFormat' = (\<not> hasInvalidChars \<and> isLengthValid \<and> length'' > 0);
          st1 = fold (matchStep ''PREFIX:'' normalized') (entries prefixes'')
                  (hints0, ''unknown'', False);
          st2 = fold (matchStep ''KEYWORD:'' normalized') (entries keywords'') st1;
          hints' = rewriteMerr (fst st2)
      in Inr \<lparr>normalized = normalized',
              raw = rawCode,
              isValidFormat = isValidFormat',
              probableType = fst (snd st2),
              hints = hints',
              status = ''unknown'',
              length' = length'',
              createdAt = now,
              meta = (if meta' \<noteq> JUndefined then Some meta' else None)\<rparr>)))"

subsection \<open>normalizeCodes\<close>

text \<open>\<^verbatim>\<open>Array.prototype.map\<close> with a callback that may raise: the first raise ends it.\<close>

fun mapE :: "('a \<Rightarrow> js_error + 'b) \<Rightarrow> 'a list \<Rightarrow> js_error + 'b list" where
  "mapE f [] = Inr []"
| "mapE f (x # xs) =
     (case f x of
        Inl e \<Rightarrow> Inl e
      | Inr y \<Rightarrow> (case mapE f xs of Inl e \<Rightarrow> Inl e | Inr ys \<Rightarrow> Inr (y # ys)))"

text \<open>
  \<open>clock i\<close> is the time read while element \<open>i\<close> is processed. The default
  \<^verbatim>\<open>{}\<close> of \<^verbatim>\<open>normalizeCodes\<close> is what every element's call receives.
\<close>

definition normalizeCodes :: "(nat \<Rightarrow> string) \<Rightarrow> jsval \<Rightarrow> config_arg \<Rightarrow> js_error + result list" where
  "normalizeCodes clock inputs config =
     (let config' = (case config of ConfigOmitted \<Rightarrow> ConfigObj emptyConfig | _ \<Rightarrow> config) in
      case inputs of
        JArr xs \<Rightarrow>
          mapE (\<lambda>(i, input). normalizeCode (clock i) input config') (zip [0..<length xs] xs)
      | _ \<Rightarrow> Inr [])"

subsection \<open>Notions used in the statements\<close>

text \<open>The value \<^verbatim>\<open>String(...)\<close> is applied to in the first lines of \<^verbatim>\<open>normalizeCode\<close>.\<close>

definition inputCode :: "jsval \<Rightarrow> jsval" where
  "inputCode input =
     (if isObject input then jsOr (getProp input ''code'') (JStr []) else jsOr input (JStr []))"

text \<open>The normalization pipeline.\<close>

definition normalizeText :: "string \<Rightarrow> string" where
  "normalizeText s = toUpperCase (removeSeparators (trim s))"

text \<open>The entries of a table whose pattern occurs in \<open>n\<close>, in the order of the table.\<close>

definition matching :: "string \<Rightarrow> table \<Rightarrow> table" where
  "matching n es = filter (\<lambda>e. includes' n (fst e)) es"

text \<open>
  The order in which the prefix loop and the keyword loop visit the merged tables: that of
  \<^verbatim>\<open>Object.entries\<close>.
\<close>

definition prefixLoopOrder :: "config_arg \<Rightarrow> table" where
  "prefixLoopOrder config =
     (case readConfig config of
        Inl e \<Rightarrow> []
      | Inr cfg \<Rightarrow> entries (spread DEFAULT_PREFIXES (prefixes' cfg)))"

definition keywordLoopOrder :: "config_arg \<Rightarrow> table" where
  "keywordLoopOrder config =
     (case readConfig config of
        Inl e \<Rightarrow> []
      | Inr cfg \<Rightarrow> entries (spread DEFAULT_KEYWORDS (keywords' cfg)))"

text \<open>
  The configured order, in the words of the specification (an ordered mapping, assembled
  `by overlaying caller-supplied prefixes/keywords onto built-in defaults (same key
  replaces the default value; unspecified keys retain defaults)'): the defaults in their
  order, a replaced value in its place, then the new keys in the order the caller wrote
  them.
\<close>

definition overlay :: "table \<Rightarrow> table \<Rightarrow> table" where
  "overlay defaults custom =
     fold (\<lambda>kv t. setProp t (fst kv) (snd kv)) custom
       (fold (\<lambda>kv t. setProp t (fst kv) (snd kv)) defaults [])"

definition configuredPrefixOrder :: "config_arg \<Rightarrow> table" where
  "configuredPrefixOrder config =
     (case readConfig config of
        Inl e \<Rightarrow> []
      | Inr cfg \<Rightarrow> overlay DEFAULT_PREFIXES (prefixes' cfg))"

definition configuredKeywordOrder :: "config_arg \<Rightarrow> table" where
  "configuredKeywordOrder config =
     (case readConfig config of
        Inl e \<Rightarrow> []
      | Inr cfg \<Rightarrow> overlay DEFAULT_KEYWORDS (keywords' cfg))"

text \<open>The length bounds in force.\<close>

definition minLengthOf :: "config_arg \<Rightarrow> int" where
  "minLengthOf config =
     (case readConfig config of
        Inl e \<Rightarrow> DEFAULT_MIN_LENGTH
      | Inr cfg \<Rightarrow> (case minLength cfg of None \<Rightarrow> DEFAULT_MIN_LENGTH | Some n \<Rightarrow> n))"

definition maxLengthOf :: "config_arg \<Rightarrow> int" where
  "maxLengthOf config =
     (case readConfig config of
        Inl e \<Rightarrow> DEFAULT_MAX_LENGTH
      | Inr cfg \<Rightarrow> (case maxLength cfg of None \<Rightarrow> DEFAULT_MAX_LENGTH | Some n \<Rightarrow> n))"

text \<open>The hint a matching keyword ends up with, after the rewrite of \<^verbatim>\<open>KEYWORD:MERR\<close>.\<close>

definition keywordHint :: "string \<Rightarrow> string" where
  "keywordHint p = (if p = ''MERR'' then ''EVENT:MERRY'' else ''KEYWORD:'' @ p)"

text \<open>The state after both loops, for the normalized text \<open>n\<close>.\<close>

definition scanResult :: "string \<Rightarrow> config_arg \<Rightarrow> scan" where
  "scanResult n config =
     fold (matchStep ''KEYWORD:'' n) (keywordLoopOrder config)
       (fold (matchStep ''PREFIX:'' n) (prefixLoopOrder config)
          (if hasInvalidChar n then [''INVALID:CHAR''] else [], ''unknown'', False))"

text \<open>The result object, given the text \<open>rawCode\<close> of the code.\<close>

definition resultOf :: "string \<Rightarrow> jsval \<Rightarrow> config_arg \<Rightarrow> string \<Rightarrow> result" where
  "resultOf now input config rawCode =
     \<lparr>normalized = normalizeText rawCode,
      raw = rawCode,
      isValidFormat = (\<not> hasInvalidChar (normalizeText rawCode)
         \<and> minLengthOf config \<le> int (length (normalizeText rawCode))
         \<and> int (length (normalizeText rawCode)) \<le> maxLengthOf config
         \<and> 0 < length (normalizeText rawCode)),
      probableType = fst (snd (scanResult (normalizeText rawCode) config)),
      hints = rewriteMerr (fst (scanResult (normalizeText rawCode) config)),
      status = ''unknown'',
      length' = int (length (normalizeText rawCode)),
      createdAt = now,
      meta = (if isObject input \<and> getProp input ''meta'' \<noteq> JUndefined
              then Some (getProp input ''meta'') else None)\<rparr>"

text \<open>The label of the first entry of \<open>ms\<close>, or \<open>d\<close> when there is none.\<close>

definition firstLabel :: "table \<Rightarrow> string \<Rightarrow> string" where
  "firstLabel ms d = (case ms of [] \<Rightarrow> d | e # _ \<Rightarrow> snd e)"

text \<open>
  The values \<^verbatim>\<open>String(...)\<close> converts without raising: every primitive, every object
  whose conversion yields a text, every array of such values.
\<close>

fun coercible :: "jsval \<Rightarrow> bool" where
  "coercible (JArr xs) = list_all coercible xs"
| "coercible (JObj fs conv) = (case conv of Inl e \<Rightarrow> False | Inr t \<Rightarrow> True)"
| "coercible v = True"

text \<open>A digit string without a leading zero.\<close>

definition canonical :: "string \<Rightarrow> bool" where
  "canonical s = (list_all isDigit s \<and> (s \<noteq> [] \<longrightarrow> hd s \<noteq> CHR ''0''))"

section \<open>Properties\<close>

subsection \<open>What a call returns\<close>

lemma normalizeCode_unfold:
  "normalizeCode now input config =
     (case toString (inputCode input) of
        Inl e \<Rightarrow> Inl e
      | Inr rawCode \<Rightarrow>
          if config = ConfigNull then Inl TypeError else Inr (resultOf now input config rawCode))"
proof (cases config)
  case ConfigOmitted
  then show ?thesis
    by (simp add: normalizeCode_def Let_def inputCode_def normalizeText_def scanResult_def
        prefixLoopOrder_def keywordLoopOrder_def minLengthOf_def maxLengthOf_def resultOf_def
        split: sum.split)
next
  case ConfigNull
  then show ?thesis
    by (simp add: normalizeCode_def Let_def inputCode_def split: sum.split)
next
  case (ConfigObj c)
  then show ?thesis
    by (simp add: normalizeCode_def Let_def inputCode_def normalizeText_def scanResult_def
        prefixLoopOrder_def keywordLoopOrder_def minLengthOf_def maxLengthOf_def resultOf_def
        split: sum.split)
qed

lemma normalizeCode_Inr_iff:
  "normalizeCode now input config = Inr r \<longleftrightarrow>
     (\<exists>rawCode. toString (inputCode input) = Inr rawCode \<and> config \<noteq> ConfigNull \<and>
        r = resultOf now input config rawCode)"
  by (auto simp: normalizeCode_unfold split: sum.splits)


subsection \<open>The two loops and the rewrite\<close>


lemma fold_matchStep:
  "fold (matchStep tag n) es (h, pt, b) =
     (h @ map (\<lambda>e. tag @ fst e) (matching n es),
      if b then pt else firstLabel (matching n es) pt,
      b \<or> matching n es \<noteq> [])"
proof (induction es arbitrary: h pt b)
  case Nil
  then show ?case by (simp add: matching_def firstLabel_def)
next
  case (Cons e es)
  obtain p t where e: "e = (p, t)" by (cases e)
  show ?case
  proof (cases "includes' n p")
    case True
    then show ?thesis
      using Cons.IH [of "h @ [tag @ p]" "if \<not> b then t else pt" True]
      by (simp add: e matchStep_def matching_def firstLabel_def)
  next
    case False
    then show ?thesis
      using Cons.IH [of h pt b]
      by (simp add: e matchStep_def matching_def firstLabel_def)
  qed
qed

lemma scanResult_eq:
  "scanResult n config =
     ((if hasInvalidChar n then [''INVALID:CHAR''] else [])
        @ map (\<lambda>e. ''PREFIX:'' @ fst e) (matching n (prefixLoopOrder config))
        @ map (\<lambda>e. ''KEYWORD:'' @ fst e) (matching n (keywordLoopOrder config)),
      firstLabel (matching n (prefixLoopOrder config))
        (firstLabel (matching n (keywordLoopOrder config)) ''unknown''),
      matching n (prefixLoopOrder config) \<noteq> [] \<or> matching n (keywordLoopOrder config) \<noteq> [])"
  by (simp add: scanResult_def fold_matchStep firstLabel_def split: list.split)

lemma indexOf_ge: "indexOf xs x \<ge> - 1"
  by (induction xs) (auto simp: Let_def)

lemma indexOf_notin: "indexOf xs x = - 1 \<longleftrightarrow> x \<notin> set xs"
proof (induction xs)
  case Nil
  then show ?case by simp
next
  case (Cons y ys)
  then show ?case using indexOf_ge [of ys x] by (auto simp: Let_def)
qed

lemma rewriteMerr_Nil: "rewriteMerr [] = []"
  by (simp add: rewriteMerr_def)

lemma rewriteMerr_Cons:
  "rewriteMerr (x # xs) =
     (if x = ''KEYWORD:MERR'' then ''EVENT:MERRY'' # xs else x # rewriteMerr xs)"
proof (cases "x = ''KEYWORD:MERR''")
  case True
  then show ?thesis by (simp add: rewriteMerr_def)
next
  case False
  show ?thesis
  proof (cases "''KEYWORD:MERR'' \<in> set xs")
    case True
    then have "indexOf xs ''KEYWORD:MERR'' \<noteq> - 1" by (simp add: indexOf_notin)
    moreover have "indexOf xs ''KEYWORD:MERR'' \<ge> - 1" by (rule indexOf_ge)
    ultimately have nonneg: "indexOf xs ''KEYWORD:MERR'' \<ge> 0" by linarith
    then have suc: "nat (indexOf xs ''KEYWORD:MERR'' + 1) = Suc (nat (indexOf xs ''KEYWORD:MERR''))"
      by linarith
    from nonneg have ne: "indexOf xs ''KEYWORD:MERR'' + 1 \<noteq> - 1" by linarith
    have "rewriteMerr (x # xs) = (x # xs)[nat (indexOf xs ''KEYWORD:MERR'' + 1) := ''EVENT:MERRY'']"
      using False \<open>indexOf xs ''KEYWORD:MERR'' \<noteq> - 1\<close> ne
      by (simp only: rewriteMerr_def Let_def indexOf.simps if_False if_True not_False_eq_True)
    also have "\<dots> = x # xs[nat (indexOf xs ''KEYWORD:MERR'') := ''EVENT:MERRY'']"
      by (simp only: suc list_update_code)
    also have "\<dots> = x # rewriteMerr xs"
      using \<open>indexOf xs ''KEYWORD:MERR'' \<noteq> - 1\<close> by (simp add: rewriteMerr_def Let_def)
    finally show ?thesis using False by simp
  next
    case notin: False
    then have "indexOf xs ''KEYWORD:MERR'' = - 1" by (simp add: indexOf_notin)
    with False show ?thesis by (simp add: rewriteMerr_def Let_def)
  qed
qed

lemma rewriteMerr_notin: "''KEYWORD:MERR'' \<notin> set xs \<Longrightarrow> rewriteMerr xs = xs"
  by (induction xs) (auto simp: rewriteMerr_Nil rewriteMerr_Cons)

lemma rewriteMerr_append:
  "''KEYWORD:MERR'' \<notin> set xs \<Longrightarrow> rewriteMerr (xs @ ys) = xs @ rewriteMerr ys"
  by (induction xs) (auto simp: rewriteMerr_Cons)

lemma rewriteMerr_keywords:
  "distinct (map fst es) \<Longrightarrow>
     rewriteMerr (map (\<lambda>e. ''KEYWORD:'' @ fst e) es) = map (\<lambda>e. keywordHint (fst e)) es"
proof (induction es)
  case Nil
  then show ?case by (simp add: rewriteMerr_Nil)
next
  case (Cons e es)
  show ?case
  proof (cases "fst e = ''MERR''")
    case True
    with Cons.prems have "''MERR'' \<notin> fst ` set es" by simp
    then have "\<forall>e' \<in> set es. fst e' \<noteq> ''MERR''" by force
    then have "map (\<lambda>e. keywordHint (fst e)) es = map (\<lambda>e. ''KEYWORD:'' @ fst e) es"
      by (simp add: keywordHint_def)
    with True show ?thesis by (simp add: rewriteMerr_Cons keywordHint_def)
  next
    case False
    with Cons show ?thesis by (simp add: rewriteMerr_Cons keywordHint_def)
  qed
qed


lemma keys_setProp: "set (map fst (setProp t k v)) = insert k (set (map fst t))"
  by (induction t k v rule: setProp.induct) auto

lemma distinct_setProp: "distinct (map fst t) \<Longrightarrow> distinct (map fst (setProp t k v))"
proof (induction t k v rule: setProp.induct)
  case (1 k v)
  then show ?case by simp
next
  case (2 k' v' t k v)
  then show ?case using keys_setProp [of t k v] by auto
qed

lemma distinct_fold_setProp:
  "distinct (map fst t) \<Longrightarrow>
     distinct (map fst (fold (\<lambda>kv t. setProp t (fst kv) (snd kv)) xs t))"
  by (induction xs arbitrary: t) (simp_all add: distinct_setProp)

lemma distinct_spread: "distinct (map fst (spread a b))"
  by (simp add: spread_def distinct_fold_setProp)

lemma distinct_entries:
  assumes "distinct (map fst t)"
  shows "distinct (map fst (entries t))"
proof -
  let ?ix = "filter (\<lambda>kv. isArrayIndex (fst kv)) t"
  let ?nx = "filter (\<lambda>kv. \<not> isArrayIndex (fst kv)) t"
  have d1: "distinct (map fst ?ix)" and d2: "distinct (map fst ?nx)"
    using assms by (simp_all add: distinct_map_filter)
  have "distinct (map fst (sort_key (\<lambda>kv. parseNat (fst kv)) ?ix))"
    using d1 by (simp add: distinct_map)
  moreover have "set (map fst (sort_key (\<lambda>kv. parseNat (fst kv)) ?ix)) \<inter> set (map fst ?nx) = {}"
    by auto
  ultimately show ?thesis
    using d2 by (simp add: entries_def)
qed

lemma distinct_prefixLoopOrder: "distinct (map fst (prefixLoopOrder config))"
  by (simp add: prefixLoopOrder_def distinct_entries distinct_spread split: sum.split)

lemma distinct_keywordLoopOrder: "distinct (map fst (keywordLoopOrder config))"
  by (simp add: keywordLoopOrder_def distinct_entries distinct_spread split: sum.split)

lemma distinct_matching: "distinct (map fst es) \<Longrightarrow> distinct (map fst (matching n es))"
  by (simp add: matching_def distinct_map_filter)

lemma prefix_hint_neq: "''PREFIX:'' @ p \<noteq> ''KEYWORD:MERR''"
  by simp

lemma hints_shape:
  "hints (resultOf now input config rawCode) =
     (if hasInvalidChar (normalizeText rawCode) then [''INVALID:CHAR''] else [])
       @ map (\<lambda>e. ''PREFIX:'' @ fst e) (matching (normalizeText rawCode) (prefixLoopOrder config))
       @ map (\<lambda>e. keywordHint (fst e)) (matching (normalizeText rawCode) (keywordLoopOrder config))"
proof -
  let ?n = "normalizeText rawCode"
  let ?inv = "if hasInvalidChar ?n then [''INVALID:CHAR''] else []"
  let ?P = "map (\<lambda>e. ''PREFIX:'' @ fst e) (matching ?n (prefixLoopOrder config))"
  let ?K = "map (\<lambda>e. ''KEYWORD:'' @ fst e) (matching ?n (keywordLoopOrder config))"
  have notin: "''KEYWORD:MERR'' \<notin> set (?inv @ ?P)"
    by auto
  have "hints (resultOf now input config rawCode) = rewriteMerr ((?inv @ ?P) @ ?K)"
    by (simp add: resultOf_def scanResult_eq)
  also have "\<dots> = (?inv @ ?P) @ rewriteMerr ?K"
    using notin by (rule rewriteMerr_append)
  also have "rewriteMerr ?K = map (\<lambda>e. keywordHint (fst e)) (matching ?n (keywordLoopOrder config))"
    by (rule rewriteMerr_keywords) (simp add: distinct_matching distinct_keywordLoopOrder)
  finally show ?thesis by simp
qed

lemma probableType_shape:
  "probableType (resultOf now input config rawCode) =
     firstLabel (matching (normalizeText rawCode) (prefixLoopOrder config))
       (firstLabel (matching (normalizeText rawCode) (keywordLoopOrder config)) ''unknown'')"
  by (simp add: resultOf_def scanResult_eq)

subsection \<open>The order of the loops and the configured order\<close>

lemma parseNat_snoc: "parseNat (s @ [c]) = 10 * parseNat s + (of_char c - 48)"
  by (simp add: parseNat_def)

lemma isDigit_range:
  assumes "isDigit c"
  shows "0 \<le> (of_char c :: int) - 48 \<and> (of_char c :: int) - 48 \<le> 9"
proof -
  from assms have "48 \<le> (of_char c :: nat) \<and> (of_char c :: nat) \<le> 57"
    by (simp add: isDigit_def Let_def)
  then have "48 \<le> int (of_char c) \<and> int (of_char c) \<le> 57" by linarith
  then show ?thesis by (simp add: of_nat_of_char)
qed

lemma digit_zero: "(of_char c :: int) - 48 = 0 \<Longrightarrow> c = CHR ''0''"
proof -
  assume "(of_char c :: int) - 48 = 0"
  then have "(of_char c :: int) = of_char (CHR ''0'')" by simp
  then show ?thesis by (simp only: of_char_eq_iff)
qed

lemma canonical_butlast: "canonical (s @ [c]) \<Longrightarrow> canonical s"
  by (cases s) (auto simp: canonical_def)

lemma canonical_pos: "canonical s \<Longrightarrow> s \<noteq> [] \<Longrightarrow> 0 < parseNat s"
proof (induction s rule: rev_induct)
  case Nil
  then show ?case by simp
next
  case (snoc c s)
  from snoc.prems have d: "isDigit c" by (simp add: canonical_def)
  show ?case
  proof (cases "s = []")
    case True
    with snoc.prems have "c \<noteq> CHR ''0''" by (simp add: canonical_def)
    with digit_zero [of c] have "(of_char c :: int) - 48 \<noteq> 0" by blast
    with isDigit_range [OF d] True show ?thesis by (simp add: parseNat_def)
  next
    case False
    with snoc have "0 < parseNat s" using canonical_butlast by blast
    with isDigit_range [OF d] show ?thesis by (simp add: parseNat_snoc)
  qed
qed

lemma decimal_step:
  fixes p q a b :: int
  assumes "0 \<le> a" "a \<le> 9" "0 \<le> b" "b \<le> 9" "10 * p + a = 10 * q + b"
  shows "p = q \<and> a = b"
  using assms by arith

lemma canonical_inj: "canonical s \<Longrightarrow> canonical t \<Longrightarrow> parseNat s = parseNat t \<Longrightarrow> s = t"
proof (induction s arbitrary: t rule: rev_induct)
  case Nil
  then show ?case using canonical_pos [of t] by (cases "t = []") (simp_all add: parseNat_def)
next
  case (snoc c s)
  have "t \<noteq> []"
  proof
    assume "t = []"
    with snoc.prems canonical_pos [of "s @ [c]"] show False by (simp add: parseNat_def)
  qed
  then obtain t' d where t: "t = t' @ [d]" by (metis rev_exhaust)
  from snoc.prems t have dc: "isDigit c" and dd: "isDigit d" by (simp_all add: canonical_def)
  from snoc.prems t have eq: "10 * parseNat s + (of_char c - 48) = 10 * parseNat t' + (of_char d - 48)"
    by (simp add: parseNat_snoc)
  have both: "parseNat s = parseNat t' \<and> (of_char c :: int) - 48 = of_char d - 48"
    using isDigit_range [OF dc] isDigit_range [OF dd] eq by (intro decimal_step) simp_all
  from snoc.prems(1) have cs: "canonical s" by (rule canonical_butlast)
  from snoc.prems(2) t have ct: "canonical t'" by (auto intro: canonical_butlast)
  from both have "s = t'" using snoc.IH [OF cs ct] by simp
  moreover from both have "(of_char c :: int) = of_char d" by simp
  then have "c = d" by (simp only: of_char_eq_iff)
  ultimately show ?case using t by simp
qed

lemma isArrayIndex_canonical: "isArrayIndex k \<Longrightarrow> k = ''0'' \<or> (canonical k \<and> k \<noteq> [])"
  by (auto simp: isArrayIndex_def canonical_def split: if_splits)

lemma parseNat_zero: "parseNat ''0'' = 0"
  by (simp add: parseNat_def)

lemma isArrayIndex_inj:
  assumes "isArrayIndex k" "isArrayIndex k'" "parseNat k = parseNat k'"
  shows "k = k'"
proof -
  from assms(1) isArrayIndex_canonical have k: "k = ''0'' \<or> (canonical k \<and> k \<noteq> [])" by blast
  from assms(2) isArrayIndex_canonical have k': "k' = ''0'' \<or> (canonical k' \<and> k' \<noteq> [])" by blast
  show ?thesis
  proof (cases "k = ''0''")
    case True
    with assms(3) have "parseNat k' = 0" by (simp add: parseNat_zero)
    with k' canonical_pos [of k'] True show ?thesis by auto
  next
    case False
    with k have ck: "canonical k" "k \<noteq> []" by auto
    then have "0 < parseNat k" by (rule canonical_pos)
    with assms(3) have "k' \<noteq> ''0''" by (auto simp: parseNat_zero)
    with k' have "canonical k'" by auto
    with ck assms(3) show ?thesis by (auto dest: canonical_inj)
  qed
qed

text \<open>Tables as finite maps.\<close>

lemma map_of_setProp: "map_of (setProp t k v) = (map_of t)(k \<mapsto> v)"
  by (induction t k v rule: setProp.induct) (auto simp: fun_eq_iff)

lemma map_of_fold_setProp:
  "map_of (fold (\<lambda>kv t. setProp t (fst kv) (snd kv)) xs t) = map_of t ++ map_of (rev xs)"
proof (induction xs arbitrary: t)
  case Nil
  then show ?case by simp
next
  case (Cons x xs)
  have "map_of (fold (\<lambda>kv t. setProp t (fst kv) (snd kv)) (x # xs) t)
          = (map_of t)(fst x \<mapsto> snd x) ++ map_of (rev xs)"
    by (simp add: Cons.IH map_of_setProp fun_upd_def)
  also have "\<dots> = map_of t ++ map_of (rev (x # xs))"
    by (rule ext) (auto simp: map_add_def split: option.splits)
  finally show ?case .
qed

lemma map_of_only_key: "map_of xs k = map_of (filter (\<lambda>kv. fst kv = k) xs) k"
  by (induction xs) auto

lemma sort_key_same: "(\<And>y. y \<in> set ys \<Longrightarrow> f y = c) \<Longrightarrow> sort_key f ys = ys"
proof (induction ys)
  case Nil
  then show ?case by simp
next
  case (Cons y ys)
  then have "sort_key f ys = ys" by simp
  with Cons.prems show ?case by (cases ys) simp_all
qed

lemma filter_key_entries: "filter (\<lambda>kv. fst kv = k) (entries t) = filter (\<lambda>kv. fst kv = k) t"
proof (cases "isArrayIndex k")
  case True
  have same: "filter (\<lambda>kv. isArrayIndex (fst kv) \<and> fst kv = k) t = filter (\<lambda>kv. fst kv = k) t"
    using True by (intro filter_cong) auto
  have none: "filter (\<lambda>kv. \<not> isArrayIndex (fst kv) \<and> fst kv = k) t = []"
    using True by (auto simp: filter_empty_conv)
  have "filter (\<lambda>kv. fst kv = k) (sort_key (\<lambda>kv. parseNat (fst kv)) (filter (\<lambda>kv. isArrayIndex (fst kv)) t))
          = sort_key (\<lambda>kv. parseNat (fst kv)) (filter (\<lambda>kv. fst kv = k) t)"
    by (simp add: filter_sort conj_commute same)
  also have "\<dots> = filter (\<lambda>kv. fst kv = k) t"
    by (rule sort_key_same [where c = "parseNat k"]) simp
  finally show ?thesis by (simp add: entries_def conj_commute none)
next
  case False
  have same: "filter (\<lambda>kv. \<not> isArrayIndex (fst kv) \<and> fst kv = k) t = filter (\<lambda>kv. fst kv = k) t"
    using False by (intro filter_cong) auto
  have none: "filter (\<lambda>kv. isArrayIndex (fst kv) \<and> fst kv = k) t = []"
    using False by (auto simp: filter_empty_conv)
  show ?thesis by (simp add: entries_def filter_sort conj_commute same none)
qed

lemma map_of_rev_entries: "map_of (rev (entries t)) = map_of (rev t)"
proof
  fix k
  have "map_of (rev (entries t)) k = map_of (rev (filter (\<lambda>kv. fst kv = k) (entries t))) k"
    by (simp add: map_of_only_key [of "rev (entries t)"] rev_filter)
  also have "\<dots> = map_of (rev t) k"
    by (simp add: filter_key_entries map_of_only_key [of "rev t"] rev_filter)
  finally show "map_of (rev (entries t)) k = map_of (rev t) k" .
qed

lemma map_of_spread_overlay: "map_of (spread a b) = map_of (overlay a b)"
  by (simp add: spread_def overlay_def map_of_fold_setProp map_of_rev_entries)

lemma distinct_overlay: "distinct (map fst (overlay a b))"
  by (simp add: overlay_def distinct_fold_setProp)

lemma set_spread_overlay: "set (spread a b) = set (overlay a b)"
  using map_of_inject_set [OF distinct_spread distinct_overlay] map_of_spread_overlay by blast


text \<open>The keys that are not array indices keep the order of the overlay.\<close>

lemma filter_other_setProp:
  "filter (\<lambda>kv. \<not> isArrayIndex (fst kv)) (setProp t k v) =
     (if isArrayIndex k then filter (\<lambda>kv. \<not> isArrayIndex (fst kv)) t
      else setProp (filter (\<lambda>kv. \<not> isArrayIndex (fst kv)) t) k v)"
  by (induction t k v rule: setProp.induct) auto

lemma filter_other_fold:
  "filter (\<lambda>kv. \<not> isArrayIndex (fst kv)) (fold (\<lambda>kv t. setProp t (fst kv) (snd kv)) xs t) =
     fold (\<lambda>kv t. setProp t (fst kv) (snd kv)) (filter (\<lambda>kv. \<not> isArrayIndex (fst kv)) xs)
       (filter (\<lambda>kv. \<not> isArrayIndex (fst kv)) t)"
  by (induction xs arbitrary: t) (simp_all add: filter_other_setProp)

lemma filter_other_entries:
  "filter (\<lambda>kv. \<not> isArrayIndex (fst kv)) (entries t) = filter (\<lambda>kv. \<not> isArrayIndex (fst kv)) t"
  by (simp add: entries_def filter_sort)

lemma filter_other_spread:
  "filter (\<lambda>kv. \<not> isArrayIndex (fst kv)) (spread a b) =
     filter (\<lambda>kv. \<not> isArrayIndex (fst kv)) (overlay a b)"
  by (simp add: spread_def overlay_def filter_other_fold filter_other_entries)

lemma inj_on_index_keys:
  assumes "distinct (map fst t)"
  shows "inj_on (\<lambda>kv. parseNat (fst kv)) (set (filter (\<lambda>kv. isArrayIndex (fst kv)) t))"
proof (rule inj_onI)
  fix x y
  assume x: "x \<in> set (filter (\<lambda>kv. isArrayIndex (fst kv)) t)"
    and y: "y \<in> set (filter (\<lambda>kv. isArrayIndex (fst kv)) t)"
    and eq: "parseNat (fst x) = parseNat (fst y)"
  then have "fst x = fst y" by (auto intro: isArrayIndex_inj)
  moreover from assms have "inj_on fst (set t)" by (simp add: distinct_map)
  ultimately show "x = y" using x y by (auto dest: inj_onD)
qed

lemma entries_spread: "entries (spread a b) = entries (overlay a b)"
proof -
  let ?I = "\<lambda>kv. isArrayIndex (fst kv)"
  let ?f = "\<lambda>kv. parseNat (fst kv)"
  have ds: "distinct (filter ?I (spread a b))" and dw: "distinct (filter ?I (overlay a b))"
    using distinct_spread [of a b] distinct_overlay [of a b] by (simp_all add: distinct_map)
  have "mset (filter ?I (spread a b)) = mset (sort_key ?f (filter ?I (overlay a b)))"
    using set_eq_iff_mset_eq_distinct [OF ds dw] set_spread_overlay [of a b] by simp
  then have "sort_key ?f (filter ?I (spread a b)) = sort_key ?f (filter ?I (overlay a b))"
    using inj_on_index_keys [OF distinct_spread, of a b] by (intro sort_key_inj_key_eq) simp_all
  then show ?thesis by (simp add: entries_def filter_other_spread)
qed

lemma entries_without_index:
  "(\<And>e. e \<in> set t \<Longrightarrow> \<not> isArrayIndex (fst e)) \<Longrightarrow> entries t = t"
proof -
  assume a: "\<And>e. e \<in> set t \<Longrightarrow> \<not> isArrayIndex (fst e)"
  then have "filter (\<lambda>kv. isArrayIndex (fst kv)) t = []" by (auto simp: filter_empty_conv)
  moreover from a have "filter (\<lambda>kv. \<not> isArrayIndex (fst kv)) t = t" by (auto intro: filter_True)
  ultimately show ?thesis by (simp add: entries_def)
qed

lemma set_entries: "set (entries t) = set t"
  by (auto simp: entries_def)

lemma entries_Nil: "entries [] = []"
  by (simp add: entries_def)

lemma prefixLoopOrder_entries: "prefixLoopOrder config = entries (configuredPrefixOrder config)"
  by (simp add: prefixLoopOrder_def configuredPrefixOrder_def entries_spread entries_Nil split: sum.split)

lemma keywordLoopOrder_entries: "keywordLoopOrder config = entries (configuredKeywordOrder config)"
  by (simp add: keywordLoopOrder_def configuredKeywordOrder_def entries_spread entries_Nil split: sum.split)

subsection \<open>Substring test\<close>

lemma includes'_sublist: "includes' s p \<longleftrightarrow> sublist p s"
  by (induction s) (auto simp: sublist_Cons_right)

lemma includes'_iff: "includes' s p \<longleftrightarrow> (\<exists>u v. s = u @ p @ v)"
  by (simp add: includes'_sublist sublist_def)

subsection \<open>The normalization pipeline\<close>


lemma toUpperChar_cases:
  "toUpperChar c = c \<or>
     (97 \<le> (of_char c :: nat) \<and> (of_char c :: nat) \<le> 122 \<and>
      (of_char (toUpperChar c) :: nat) = of_char c - 32)"
  by (auto simp: toUpperChar_def Let_def)

lemma isSpace_code: "isSpace c \<Longrightarrow> (of_char c :: nat) \<in> {9, 10, 11, 12, 13, 32}"
  by (auto simp: isSpace_def)

lemma hyphen_code: "(of_char (CHR ''-'') :: nat) = 45"
  by simp

lemma separator_toUpperChar:
  "isSpace (toUpperChar c) \<or> toUpperChar c = CHR ''-'' \<Longrightarrow> isSpace c \<or> c = CHR ''-''"
proof -
  assume sep: "isSpace (toUpperChar c) \<or> toUpperChar c = CHR ''-''"
  then have small: "(of_char (toUpperChar c) :: nat) \<in> {9, 10, 11, 12, 13, 32, 45}"
    using isSpace_code [of "toUpperChar c"] hyphen_code by auto
  from toUpperChar_cases [of c] show ?thesis
  proof
    assume "toUpperChar c = c"
    with sep show ?thesis by simp
  next
    assume "97 \<le> (of_char c :: nat) \<and> (of_char c :: nat) \<le> 122 \<and>
      (of_char (toUpperChar c) :: nat) = of_char c - 32"
    then have "65 \<le> (of_char (toUpperChar c) :: nat)" by linarith
    with small show ?thesis by auto
  qed
qed

lemma toUpperChar_idem: "toUpperChar (toUpperChar c) = toUpperChar c"
proof -
  from toUpperChar_cases [of c] show ?thesis
  proof
    assume "toUpperChar c = c"
    then show ?thesis by simp
  next
    assume "97 \<le> (of_char c :: nat) \<and> (of_char c :: nat) \<le> 122 \<and>
      (of_char (toUpperChar c) :: nat) = of_char c - 32"
    then have "(of_char (toUpperChar c) :: nat) < 97" by linarith
    then show ?thesis by (simp add: toUpperChar_def [of "toUpperChar c"] Let_def)
  qed
qed

lemma filter_dropWhile:
  "(\<And>c. Q c \<Longrightarrow> \<not> P c) \<Longrightarrow> filter P (dropWhile Q s) = filter P s"
  by (induction s) auto

lemma removeSeparators_trim: "removeSeparators (trim s) = removeSeparators s"
proof -
  let ?P = "\<lambda>c. \<not> (isSpace c \<or> c = CHR ''-'')"
  have "filter ?P (rev (dropWhile isSpace (rev (dropWhile isSpace s))))
          = rev (filter ?P (dropWhile isSpace (rev (dropWhile isSpace s))))"
    by (simp add: rev_filter)
  also have "\<dots> = rev (filter ?P (rev (dropWhile isSpace s)))"
    by (simp add: filter_dropWhile)
  also have "\<dots> = filter ?P (dropWhile isSpace s)"
    by (simp add: rev_filter)
  also have "\<dots> = filter ?P s"
    by (simp add: filter_dropWhile)
  finally show ?thesis by (simp add: removeSeparators_def trim_def)
qed

lemma normalizeText_eq: "normalizeText s = map toUpperChar (removeSeparators s)"
  by (simp add: normalizeText_def toUpperCase_def removeSeparators_trim)

lemma normalizeText_no_separator:
  "c \<in> set (normalizeText s) \<Longrightarrow> \<not> (isSpace c \<or> c = CHR ''-'')"
proof
  assume c: "c \<in> set (normalizeText s)" and sep: "isSpace c \<or> c = CHR ''-''"
  from c obtain d where d: "d \<in> set (removeSeparators s)" "c = toUpperChar d"
    by (auto simp: normalizeText_eq)
  from sep d have "isSpace d \<or> d = CHR ''-''" using separator_toUpperChar [of d] by simp
  with d show False by (auto simp: removeSeparators_def)
qed

lemma normalizeText_idem: "normalizeText (normalizeText s) = normalizeText s"
proof -
  have keep: "removeSeparators (normalizeText s) = normalizeText s"
    unfolding removeSeparators_def
    using normalizeText_no_separator [of _ s] by (intro filter_True) blast
  have "normalizeText (normalizeText s) = map toUpperChar (normalizeText s)"
    by (simp add: normalizeText_eq [of "normalizeText s"] keep)
  also have "\<dots> = normalizeText s"
    by (simp add: normalizeText_eq [of s] toUpperChar_idem)
  finally show ?thesis .
qed

lemma inputCode_JStr: "toString (inputCode (JStr x)) = Inr x"
  by (simp add: inputCode_def jsOr_def)

subsection \<open>The scenario Merristmas\<close>

text \<open>
  C3. For the text \<^verbatim>\<open>Merristmas\<close> and no configuration, whatever the clock reads, the
  call returns the result with \<^verbatim>\<open>normalized = MERRISTMAS\<close>, a valid format, the type
  \<^verbatim>\<open>event_reward\<close>, the single hint \<^verbatim>\<open>EVENT:MERRY\<close> and the length 10. The
  loops record the single hint \<^verbatim>\<open>KEYWORD:MERR\<close>, and the rewrite replaces it in place.
\<close>

theorem merristmas_result:
  "normalizeCode now (JStr ''Merristmas'') ConfigOmitted =
     Inr \<lparr>normalized = ''MERRISTMAS'', raw = ''Merristmas'', isValidFormat = True,
          probableType = ''event_reward'', hints = [''EVENT:MERRY''], status = ''unknown'',
          length' = 10, createdAt = now, meta = None\<rparr>
   \<and> fst (scanResult ''MERRISTMAS'' ConfigOmitted) = [''KEYWORD:MERR'']
   \<and> rewriteMerr [''KEYWORD:MERR''] = [''EVENT:MERRY'']"
  by code_simp

theorem merristmas_result_witness:
  "normalizeCode ''2025-12-31T12:00:00.000Z'' (JStr ''Merristmas'') ConfigOmitted =
     Inr \<lparr>normalized = ''MERRISTMAS'', raw = ''Merristmas'', isValidFormat = True,
          probableType = ''event_reward'', hints = [''EVENT:MERRY''], status = ''unknown'',
          length' = 10, createdAt = ''2025-12-31T12:00:00.000Z'', meta = None\<rparr>"
  using merristmas_result [of "''2025-12-31T12:00:00.000Z''"] by simp

subsection \<open>Idempotence\<close>

text \<open>
  C6. For every text \<open>x\<close>: when the call on \<open>x\<close> returns \<open>r\<close>, the call on the text
  \<open>normalized r\<close> (at any later clock reading) returns too, and its \<open>normalized\<close> field is
  \<open>normalized r\<close> again.
\<close>

theorem normalize_idempotent:
  assumes "normalizeCode now (JStr x) config = Inr r"
  shows "\<exists>r'. normalizeCode now' (JStr (normalized r)) config = Inr r'
            \<and> normalized r' = normalized r"
proof -
  from assms have cfg: "config \<noteq> ConfigNull" and r: "r = resultOf now (JStr x) config x"
    by (auto simp: normalizeCode_Inr_iff inputCode_JStr)
  from r have n: "normalized r = normalizeText x" by (simp add: resultOf_def)
  have "normalizeCode now' (JStr (normalized r)) config
          = Inr (resultOf now' (JStr (normalized r)) config (normalized r))"
    using cfg by (simp add: normalizeCode_Inr_iff inputCode_JStr)
  moreover have "normalized (resultOf now' (JStr (normalized r)) config (normalized r)) = normalized r"
    by (simp add: resultOf_def n normalizeText_idem)
  ultimately show ?thesis by blast
qed

theorem normalize_idempotent_witness:
  "normalizeCode ''2025-12-31T12:00:00.000Z'' (JStr '' 25-ikes '') ConfigOmitted =
     Inr \<lparr>normalized = ''25IKES'', raw = '' 25-ikes '', isValidFormat = True,
          probableType = ''class_reroll'', hints = [''PREFIX:IKES''], status = ''unknown'',
          length' = 6, createdAt = ''2025-12-31T12:00:00.000Z'', meta = None\<rparr>
   \<and> (\<exists>r'. normalizeCode ''2026-01-01T00:00:00.000Z'' (JStr ''25IKES'') ConfigOmitted = Inr r'
          \<and> normalized r' = ''25IKES'')"
proof -
  have h: "normalizeCode ''2025-12-31T12:00:00.000Z'' (JStr '' 25-ikes '') ConfigOmitted =
     Inr \<lparr>normalized = ''25IKES'', raw = '' 25-ikes '', isValidFormat = True,
          probableType = ''class_reroll'', hints = [''PREFIX:IKES''], status = ''unknown'',
          length' = 6, createdAt = ''2025-12-31T12:00:00.000Z'', meta = None\<rparr>"
    by code_simp
  from normalize_idempotent [OF h, of "''2026-01-01T00:00:00.000Z''"] h show ?thesis by simp
qed

subsection \<open>Validity of the format\<close>

lemma hasInvalidChar_iff: "hasInvalidChar s \<longleftrightarrow> (\<exists>c \<in> set s. \<not> isUpperAlnum c)"
  by (simp add: hasInvalidChar_def list_ex_iff)

lemma keywordHint_neq_invalid: "keywordHint p \<noteq> ''INVALID:CHAR''"
  by (simp add: keywordHint_def)

lemma count_invalid_hint:
  "count_list (hints (resultOf now input config rawCode)) ''INVALID:CHAR'' =
     (if hasInvalidChar (normalizeText rawCode) then 1 else 0)"
  by (auto simp: hints_shape count_list_0_iff keywordHint_def)

text \<open>
  C1. Whenever a call returns \<open>r\<close>: \<open>isValidFormat r\<close> holds if and only if every
  character of \<open>normalized r\<close> is in \<^verbatim>\<open>[A-Z0-9]\<close>, the length of \<open>normalized r\<close>
  lies between the minimum and the maximum length in force, both included, and the length
  is greater than 0. The hint \<^verbatim>\<open>INVALID:CHAR\<close> occurs in \<open>hints r\<close> exactly once when
  some character of \<open>normalized r\<close> is outside \<^verbatim>\<open>[A-Z0-9]\<close>, however many there are,
  and not at all otherwise.
\<close>

theorem valid_format_and_invalid_hint:
  assumes "normalizeCode now input config = Inr r"
  shows "(isValidFormat r \<longleftrightarrow>
            (\<forall>c \<in> set (normalized r). isUpperAlnum c)
            \<and> minLengthOf config \<le> int (length (normalized r))
            \<and> int (length (normalized r)) \<le> maxLengthOf config
            \<and> 0 < length (normalized r))
       \<and> count_list (hints r) ''INVALID:CHAR'' =
            (if \<exists>c \<in> set (normalized r). \<not> isUpperAlnum c then 1 else 0)"
proof -
  from assms obtain rawCode where r: "r = resultOf now input config rawCode"
    by (auto simp: normalizeCode_Inr_iff)
  have n: "normalized r = normalizeText rawCode" by (simp add: r resultOf_def)
  have "isValidFormat r \<longleftrightarrow>
          \<not> hasInvalidChar (normalized r)
          \<and> minLengthOf config \<le> int (length (normalized r))
          \<and> int (length (normalized r)) \<le> maxLengthOf config
          \<and> 0 < length (normalized r)"
    by (simp add: r resultOf_def)
  moreover have "count_list (hints r) ''INVALID:CHAR'' = (if hasInvalidChar (normalized r) then 1 else 0)"
    unfolding n unfolding r by (rule count_invalid_hint)
  ultimately show ?thesis by (simp add: hasInvalidChar_iff)
qed

theorem valid_format_and_invalid_hint_witness:
  "normalizeCode ''2025-12-31T12:00:00.000Z'' (JStr ''bad code!!'') ConfigOmitted =
     Inr \<lparr>normalized = ''BADCODE!!'', raw = ''bad code!!'', isValidFormat = False,
          probableType = ''unknown'', hints = [''INVALID:CHAR''], status = ''unknown'',
          length' = 9, createdAt = ''2025-12-31T12:00:00.000Z'', meta = None\<rparr>
   \<and> \<not> isUpperAlnum (CHR ''!'')
   \<and> count_list [''INVALID:CHAR''] ''INVALID:CHAR'' = (1::nat)"
proof -
  have h: "normalizeCode ''2025-12-31T12:00:00.000Z'' (JStr ''bad code!!'') ConfigOmitted =
     Inr \<lparr>normalized = ''BADCODE!!'', raw = ''bad code!!'', isValidFormat = False,
          probableType = ''unknown'', hints = [''INVALID:CHAR''], status = ''unknown'',
          length' = 9, createdAt = ''2025-12-31T12:00:00.000Z'', meta = None\<rparr>"
    by code_simp
  have b: "\<not> isUpperAlnum (CHR ''!'')" by (simp add: isUpperAlnum_def)
  from valid_format_and_invalid_hint [OF h] h b show ?thesis by simp
qed

subsection \<open>Classification\<close>

text \<open>
  Array-index keys come first: a table written \<^verbatim>\<open>{ XMAS: ..., 2025: ... }\<close> is visited
  with the key \<^verbatim>\<open>2025\<close> before \<^verbatim>\<open>XMAS\<close>, and after the spread before the
  default \<^verbatim>\<open>IKES\<close> too.
\<close>

lemma entries_index_keys_first:
  "entries [(''XMAS'', ''event_reward''), (''2025'', ''currency'')]
     = [(''2025'', ''currency''), (''XMAS'', ''event_reward'')]
   \<and> entries (spread DEFAULT_PREFIXES [(''XMAS'', ''event_reward''), (''2025'', ''currency'')])
     = [(''2025'', ''currency''), (''IKES'', ''class_reroll''), (''XMAS'', ''event_reward'')]"
  by code_simp

lemma prefixLoopOrder_default: "prefixLoopOrder ConfigOmitted = [(''IKES'', ''class_reroll'')]"
  by code_simp

lemma keywordLoopOrder_default:
  "keywordLoopOrder ConfigOmitted =
     [(''MERR'', ''event_reward''), (''STAT'', ''stat_reset''), (''COIN'', ''currency''),
      (''GEM'', ''currency''), (''CASH'', ''currency'')]"
  by code_simp

lemma find_filter_conv:
  "find P xs = (case filter P xs of [] \<Rightarrow> None | x # _ \<Rightarrow> Some x)"
  by (induction xs) auto

lemma firstLabel_nonempty: "ms \<noteq> [] \<Longrightarrow> firstLabel ms d = snd (hd ms)"
  by (cases ms) (simp_all add: firstLabel_def)

text \<open>
  C2, as amended. Whenever a call returns \<open>r\<close> and some prefix pattern occurs in
  \<open>normalized r\<close>: \<open>probableType r\<close> is the label of the first prefix entry whose
  pattern occurs in \<open>normalized r\<close>, in the order in which the loop visits the prefixes;
  every prefix pattern that occurs has its \<^verbatim>\<open>PREFIX:\<close> hint in \<open>hints r\<close>; every
  keyword pattern that occurs has its hint in \<open>hints r\<close>, which is \<^verbatim>\<open>KEYWORD:\<close>
  followed by the pattern, or \<^verbatim>\<open>EVENT:MERRY\<close> for the pattern \<^verbatim>\<open>MERR\<close>; and a
  turn of either loop that starts with the type already set leaves the type as it is.
  The loop visits the configured prefixes (the defaults, then the new keys as written) with
  the array-index patterns first, in ascending numeric order, and the other patterns after
  them in the configured order; it visits them in the configured order when no configured
  pattern is an array index.
\<close>

theorem prefix_priority:
  assumes "normalizeCode now input config = Inr r"
    and "\<exists>e \<in> set (prefixLoopOrder config). includes' (normalized r) (fst e)"
  shows "(\<exists>e. find (\<lambda>e. includes' (normalized r) (fst e)) (prefixLoopOrder config) = Some e
              \<and> probableType r = snd e)
       \<and> (\<forall>e \<in> set (prefixLoopOrder config).
             includes' (normalized r) (fst e) \<longrightarrow> ''PREFIX:'' @ fst e \<in> set (hints r))
       \<and> (\<forall>e \<in> set (keywordLoopOrder config).
             includes' (normalized r) (fst e) \<longrightarrow>
               (if fst e = ''MERR'' then ''EVENT:MERRY'' else ''KEYWORD:'' @ fst e) \<in> set (hints r))
       \<and> (\<forall>tag e h pt. fst (snd (matchStep tag (normalized r) e (h, pt, True))) = pt)
       \<and> prefixLoopOrder config =
            sort_key (\<lambda>e. parseNat (fst e))
              (filter (\<lambda>e. isArrayIndex (fst e)) (configuredPrefixOrder config))
            @ filter (\<lambda>e. \<not> isArrayIndex (fst e)) (configuredPrefixOrder config)
       \<and> ((\<forall>e \<in> set (configuredPrefixOrder config). \<not> isArrayIndex (fst e)) \<longrightarrow>
            prefixLoopOrder config = configuredPrefixOrder config)"
proof -
  from assms(1) obtain rawCode where r: "r = resultOf now input config rawCode"
    by (auto simp: normalizeCode_Inr_iff)
  have n: "normalized r = normalizeText rawCode" by (simp add: r resultOf_def)
  let ?ms = "matching (normalized r) (prefixLoopOrder config)"
  from assms(2) have ne: "?ms \<noteq> []"
    by (auto simp: matching_def filter_empty_conv)
  then obtain e ms where ms: "?ms = e # ms" by (cases ?ms) auto
  have "find (\<lambda>e. includes' (normalized r) (fst e)) (prefixLoopOrder config) = Some e"
    using ms by (simp add: find_filter_conv matching_def)
  moreover have "probableType r = snd e"
    using ms by (simp add: r probableType_shape n [symmetric] firstLabel_def)
  moreover have "\<forall>e \<in> set (prefixLoopOrder config).
      includes' (normalized r) (fst e) \<longrightarrow> ''PREFIX:'' @ fst e \<in> set (hints r)"
    by (auto simp: r hints_shape n [symmetric] matching_def)
  moreover have "\<forall>e \<in> set (keywordLoopOrder config).
      includes' (normalized r) (fst e) \<longrightarrow>
        (if fst e = ''MERR'' then ''EVENT:MERRY'' else ''KEYWORD:'' @ fst e) \<in> set (hints r)"
  proof (intro ballI impI)
    fix e assume "e \<in> set (keywordLoopOrder config)" "includes' (normalized r) (fst e)"
    then have "keywordHint (fst e) \<in> set (hints r)"
      by (auto simp: r hints_shape n [symmetric] matching_def)
    then show "(if fst e = ''MERR'' then ''EVENT:MERRY'' else ''KEYWORD:'' @ fst e) \<in> set (hints r)"
      by (simp add: keywordHint_def)
  qed
  moreover have "\<forall>tag e h pt. fst (snd (matchStep tag (normalized r) e (h, pt, True))) = pt"
    by (auto simp: matchStep_def split: prod.splits)
  moreover have "prefixLoopOrder config =
      sort_key (\<lambda>e. parseNat (fst e))
        (filter (\<lambda>e. isArrayIndex (fst e)) (configuredPrefixOrder config))
      @ filter (\<lambda>e. \<not> isArrayIndex (fst e)) (configuredPrefixOrder config)"
    by (simp add: prefixLoopOrder_entries entries_def)
  moreover have "(\<forall>e \<in> set (configuredPrefixOrder config). \<not> isArrayIndex (fst e)) \<longrightarrow>
      prefixLoopOrder config = configuredPrefixOrder config"
    by (simp add: prefixLoopOrder_entries entries_without_index)
  ultimately show ?thesis by blast
qed


theorem prefix_priority_witness:
  "normalizeCode ''2025-12-31T12:00:00.000Z'' (JStr ''merry-ikes'') ConfigOmitted =
     Inr \<lparr>normalized = ''MERRYIKES'', raw = ''merry-ikes'', isValidFormat = True,
          probableType = ''class_reroll'', hints = [''PREFIX:IKES'', ''EVENT:MERRY''],
          status = ''unknown'', length' = 9, createdAt = ''2025-12-31T12:00:00.000Z'',
          meta = None\<rparr>
   \<and> includes' ''MERRYIKES'' ''IKES''
   \<and> includes' ''MERRYIKES'' ''MERR''
   \<and> (\<exists>e. find (\<lambda>e. includes' ''MERRYIKES'' (fst e)) (prefixLoopOrder ConfigOmitted) = Some e
          \<and> ''class_reroll'' = snd e)
   \<and> normalizeCode ''2025-12-31T12:00:00.000Z'' (JStr ''xmas-2025'')
        (ConfigObj \<lparr>minLength = None, maxLength = None,
           prefixes' = [(''XMAS'', ''event_reward''), (''2025'', ''currency'')],
           keywords' = []\<rparr>) =
     Inr \<lparr>normalized = ''XMAS2025'', raw = ''xmas-2025'', isValidFormat = True,
          probableType = ''currency'', hints = [''PREFIX:2025'', ''PREFIX:XMAS''],
          status = ''unknown'', length' = 8, createdAt = ''2025-12-31T12:00:00.000Z'',
          meta = None\<rparr>
   \<and> prefixLoopOrder
        (ConfigObj \<lparr>minLength = None, maxLength = None,
           prefixes' = [(''XMAS'', ''event_reward''), (''2025'', ''currency'')],
           keywords' = []\<rparr>) =
     [(''2025'', ''currency''), (''IKES'', ''class_reroll''), (''XMAS'', ''event_reward'')]
   \<and> (\<exists>e. find (\<lambda>e. includes' ''XMAS2025'' (fst e))
              [(''2025'', ''currency''), (''IKES'', ''class_reroll''), (''XMAS'', ''event_reward'')]
            = Some e
          \<and> ''currency'' = snd e)"
proof -
  let ?R = "\<lparr>normalized = ''MERRYIKES'', raw = ''merry-ikes'', isValidFormat = True,
          probableType = ''class_reroll'', hints = [''PREFIX:IKES'', ''EVENT:MERRY''],
          status = ''unknown'', length' = 9, createdAt = ''2025-12-31T12:00:00.000Z'',
          meta = None\<rparr>"
  let ?C = "ConfigObj \<lparr>minLength = None, maxLength = None,
           prefixes' = [(''XMAS'', ''event_reward''), (''2025'', ''currency'')],
           keywords' = []\<rparr>"
  let ?S = "\<lparr>normalized = ''XMAS2025'', raw = ''xmas-2025'', isValidFormat = True,
          probableType = ''currency'', hints = [''PREFIX:2025'', ''PREFIX:XMAS''],
          status = ''unknown'', length' = 8, createdAt = ''2025-12-31T12:00:00.000Z'',
          meta = None\<rparr>"
  have h: "normalizeCode ''2025-12-31T12:00:00.000Z'' (JStr ''merry-ikes'') ConfigOmitted = Inr ?R"
    by code_simp
  have i: "includes' ''MERRYIKES'' ''IKES''" and m: "includes' ''MERRYIKES'' ''MERR''"
    by code_simp+
  have p: "\<exists>e \<in> set (prefixLoopOrder ConfigOmitted). includes' (normalized ?R) (fst e)"
    using i by (simp add: prefixLoopOrder_default)
  have g: "normalizeCode ''2025-12-31T12:00:00.000Z'' (JStr ''xmas-2025'') ?C = Inr ?S"
    by code_simp
  have lo: "prefixLoopOrder ?C =
      [(''2025'', ''currency''), (''IKES'', ''class_reroll''), (''XMAS'', ''event_reward'')]"
    by code_simp
  have x: "includes' ''XMAS2025'' ''2025''"
    by code_simp
  have q: "\<exists>e \<in> set (prefixLoopOrder ?C). includes' (normalized ?S) (fst e)"
    using x by (simp add: lo)
  have first: "\<exists>e. find (\<lambda>e. includes' ''MERRYIKES'' (fst e)) (prefixLoopOrder ConfigOmitted) = Some e
          \<and> ''class_reroll'' = snd e"
    using prefix_priority [OF h p, THEN conjunct1] by simp
  have second: "\<exists>e. find (\<lambda>e. includes' ''XMAS2025'' (fst e))
              [(''2025'', ''currency''), (''IKES'', ''class_reroll''), (''XMAS'', ''event_reward'')]
            = Some e
          \<and> ''currency'' = snd e"
    using prefix_priority [OF g q, THEN conjunct1] by (simp only: lo result.simps)
  show ?thesis
    by (intro conjI) (rule h i m first g lo second)+
qed

text \<open>
  With the prefixes written \<^verbatim>\<open>{ XMAS: 'event_reward', 2025: 'currency' }\<close> the code
  \<^verbatim>\<open>XMAS2025\<close> gets the type \<^verbatim>\<open>currency\<close>, although \<^verbatim>\<open>XMAS\<close> is the first
  pattern of the configured order that occurs in it.
\<close>

theorem first_configured_prefix_overtaken:
  "normalizeCode ''2025-12-31T12:00:00.000Z'' (JStr ''XMAS2025'')
        (ConfigObj \<lparr>minLength = None, maxLength = None,
           prefixes' = [(''XMAS'', ''event_reward''), (''2025'', ''currency'')],
           keywords' = []\<rparr>) =
     Inr \<lparr>normalized = ''XMAS2025'', raw = ''XMAS2025'', isValidFormat = True,
          probableType = ''currency'', hints = [''PREFIX:2025'', ''PREFIX:XMAS''],
          status = ''unknown'', length' = 8, createdAt = ''2025-12-31T12:00:00.000Z'',
          meta = None\<rparr>
   \<and> configuredPrefixOrder
        (ConfigObj \<lparr>minLength = None, maxLength = None,
           prefixes' = [(''XMAS'', ''event_reward''), (''2025'', ''currency'')],
           keywords' = []\<rparr>) =
     [(''IKES'', ''class_reroll''), (''XMAS'', ''event_reward''), (''2025'', ''currency'')]
   \<and> find (\<lambda>e. includes' ''XMAS2025'' (fst e))
        [(''IKES'', ''class_reroll''), (''XMAS'', ''event_reward''), (''2025'', ''currency'')]
     = Some (''XMAS'', ''event_reward'')"
  by code_simp

subsection \<open>A type other than unknown has its hint\<close>

text \<open>
  C7. Whenever a call returns \<open>r\<close> and \<open>probableType r\<close> is not \<^verbatim>\<open>unknown\<close>: some
  prefix entry whose pattern occurs in \<open>normalized r\<close> carries the label
  \<open>probableType r\<close> and its \<^verbatim>\<open>PREFIX:\<close> hint is in \<open>hints r\<close>, or some keyword
  entry whose pattern occurs in \<open>normalized r\<close> carries that label and its hint is in
  \<open>hints r\<close>: \<^verbatim>\<open>EVENT:MERRY\<close> when the pattern is \<^verbatim>\<open>MERR\<close>, and
  \<^verbatim>\<open>KEYWORD:\<close> followed by the pattern otherwise.
\<close>

theorem known_type_has_hint:
  assumes "normalizeCode now input config = Inr r"
    and "probableType r \<noteq> ''unknown''"
  shows "(\<exists>e \<in> set (prefixLoopOrder config).
            includes' (normalized r) (fst e) \<and> snd e = probableType r
            \<and> ''PREFIX:'' @ fst e \<in> set (hints r))
       \<or> (\<exists>e \<in> set (keywordLoopOrder config).
            includes' (normalized r) (fst e) \<and> snd e = probableType r
            \<and> (if fst e = ''MERR'' then ''EVENT:MERRY'' else ''KEYWORD:'' @ fst e) \<in> set (hints r))"
proof -
  from assms(1) obtain rawCode where r: "r = resultOf now input config rawCode"
    by (auto simp: normalizeCode_Inr_iff)
  have n: "normalized r = normalizeText rawCode" by (simp add: r resultOf_def)
  let ?ps = "matching (normalized r) (prefixLoopOrder config)"
  let ?ks = "matching (normalized r) (keywordLoopOrder config)"
  have pt: "probableType r = firstLabel ?ps (firstLabel ?ks ''unknown'')"
    by (simp add: r probableType_shape n [symmetric])
  have hs: "hints r = (if hasInvalidChar (normalized r) then [''INVALID:CHAR''] else [])
              @ map (\<lambda>e. ''PREFIX:'' @ fst e) ?ps @ map (\<lambda>e. keywordHint (fst e)) ?ks"
    by (simp add: r hints_shape n [symmetric])
  show ?thesis
  proof (cases ?ps)
    case (Cons e ms)
    then have "e \<in> set ?ps" by simp
    then have "e \<in> set (prefixLoopOrder config)" "includes' (normalized r) (fst e)"
      by (simp_all add: matching_def)
    moreover have "snd e = probableType r" using Cons pt by (simp add: firstLabel_def)
    moreover have "''PREFIX:'' @ fst e \<in> set (hints r)" using Cons hs by simp
    ultimately show ?thesis by blast
  next
    case Nil
    show ?thesis
    proof (cases ?ks)
      case (Cons e ms)
      then have "e \<in> set ?ks" by simp
      then have "e \<in> set (keywordLoopOrder config)" "includes' (normalized r) (fst e)"
        by (simp_all add: matching_def)
      moreover have "snd e = probableType r" using Cons Nil pt by (simp add: firstLabel_def)
      moreover have "keywordHint (fst e) \<in> set (hints r)" using Cons hs by simp
      then have "(if fst e = ''MERR'' then ''EVENT:MERRY'' else ''KEYWORD:'' @ fst e) \<in> set (hints r)"
        by (simp add: keywordHint_def)
      ultimately show ?thesis by blast
    next
      case knil: Nil
      with Nil pt assms(2) show ?thesis by (simp add: firstLabel_def)
    qed
  qed
qed

theorem known_type_has_hint_witness:
  "normalizeCode ''2025-12-31T12:00:00.000Z'' (JStr ''MerryChristmas'') ConfigOmitted =
     Inr \<lparr>normalized = ''MERRYCHRISTMAS'', raw = ''MerryChristmas'', isValidFormat = True,
          probableType = ''event_reward'', hints = [''EVENT:MERRY''],
          status = ''unknown'', length' = 14, createdAt = ''2025-12-31T12:00:00.000Z'',
          meta = None\<rparr>
   \<and> (''MERR'', ''event_reward'') \<in> set (keywordLoopOrder ConfigOmitted)
   \<and> includes' ''MERRYCHRISTMAS'' ''MERR''
   \<and> \<not> includes' ''MERRYCHRISTMAS'' ''IKES''"
proof -
  let ?R = "\<lparr>normalized = ''MERRYCHRISTMAS'', raw = ''MerryChristmas'', isValidFormat = True,
          probableType = ''event_reward'', hints = [''EVENT:MERRY''],
          status = ''unknown'', length' = 14, createdAt = ''2025-12-31T12:00:00.000Z'',
          meta = None\<rparr>"
  have h: "normalizeCode ''2025-12-31T12:00:00.000Z'' (JStr ''MerryChristmas'') ConfigOmitted = Inr ?R"
    by code_simp
  have u: "probableType ?R \<noteq> ''unknown''" by simp
  have m: "includes' ''MERRYCHRISTMAS'' ''MERR''" and i: "\<not> includes' ''MERRYCHRISTMAS'' ''IKES''"
    by code_simp+
  from known_type_has_hint [OF h u] h m i show ?thesis
    by (simp add: keywordLoopOrder_default)
qed

subsection \<open>The meta field\<close>

text \<open>
  C9. Whenever a call returns \<open>r\<close>: \<open>r\<close> has a \<open>meta\<close> field if and only if the input is
  an object whose \<^verbatim>\<open>meta\<close> property is not \<^verbatim>\<open>undefined\<close>; the field then holds
  that very value; and an empty mapping is there only when the input supplied one.
\<close>

theorem meta_mirrors_input:
  assumes "normalizeCode now input config = Inr r"
  shows "(meta r \<noteq> None \<longleftrightarrow> isObject input \<and> getProp input ''meta'' \<noteq> JUndefined)
       \<and> (\<forall>m. meta r = Some m \<longrightarrow> m = getProp input ''meta'')
       \<and> (meta r = Some (plainObject []) \<longrightarrow> getProp input ''meta'' = plainObject [])"
proof -
  from assms obtain rawCode where r: "r = resultOf now input config rawCode"
    by (auto simp: normalizeCode_Inr_iff)
  then show ?thesis by (simp add: resultOf_def)
qed

theorem meta_mirrors_input_witness:
  "normalizeCode ''2025-12-31T12:00:00.000Z''
      (plainObject [(''code'', JStr ''STAT-RESET''), (''meta'', plainObject [(''source'', JStr ''discord'')])])
      ConfigOmitted =
     Inr \<lparr>normalized = ''STATRESET'', raw = ''STAT-RESET'', isValidFormat = True,
          probableType = ''stat_reset'', hints = [''KEYWORD:STAT''],
          status = ''unknown'', length' = 9, createdAt = ''2025-12-31T12:00:00.000Z'',
          meta = Some (plainObject [(''source'', JStr ''discord'')])\<rparr>
   \<and> getProp (plainObject [(''code'', JStr ''STAT-RESET''), (''meta'', plainObject [(''source'', JStr ''discord'')])])
        ''meta'' = plainObject [(''source'', JStr ''discord'')]
   \<and> normalizeCode ''2025-12-31T12:00:00.000Z'' (plainObject [(''code'', JStr ''STAT-RESET'')]) ConfigOmitted =
     Inr \<lparr>normalized = ''STATRESET'', raw = ''STAT-RESET'', isValidFormat = True,
          probableType = ''stat_reset'', hints = [''KEYWORD:STAT''],
          status = ''unknown'', length' = 9, createdAt = ''2025-12-31T12:00:00.000Z'',
          meta = None\<rparr>"
proof -
  let ?I = "plainObject [(''code'', JStr ''STAT-RESET''), (''meta'', plainObject [(''source'', JStr ''discord'')])]"
  let ?R = "\<lparr>normalized = ''STATRESET'', raw = ''STAT-RESET'', isValidFormat = True,
          probableType = ''stat_reset'', hints = [''KEYWORD:STAT''],
          status = ''unknown'', length' = 9, createdAt = ''2025-12-31T12:00:00.000Z'',
          meta = Some (plainObject [(''source'', JStr ''discord'')])\<rparr>"
  have h: "normalizeCode ''2025-12-31T12:00:00.000Z'' ?I ConfigOmitted = Inr ?R"
    by code_simp
  have h': "normalizeCode ''2025-12-31T12:00:00.000Z'' (plainObject [(''code'', JStr ''STAT-RESET'')]) ConfigOmitted =
     Inr \<lparr>normalized = ''STATRESET'', raw = ''STAT-RESET'', isValidFormat = True,
          probableType = ''stat_reset'', hints = [''KEYWORD:STAT''],
          status = ''unknown'', length' = 9, createdAt = ''2025-12-31T12:00:00.000Z'',
          meta = None\<rparr>"
    by code_simp
  from meta_mirrors_input [OF h] h h' show ?thesis by simp
qed

subsection \<open>The order of the hints\<close>

text \<open>
  C10, as amended. Whenever a call returns \<open>r\<close>, \<open>hints r\<close> is made of three blocks in
  this order: \<^verbatim>\<open>INVALID:CHAR\<close> alone when some character of \<open>normalized r\<close> is
  outside \<^verbatim>\<open>[A-Z0-9]\<close> and nothing otherwise; then the \<^verbatim>\<open>PREFIX:\<close> hints of the
  prefix patterns that occur in \<open>normalized r\<close>, in the order in which the loop visits the
  prefixes; then the hints of the keyword patterns that occur, in the order in which the loop
  visits the keywords, \<^verbatim>\<open>EVENT:MERRY\<close> standing for the pattern \<^verbatim>\<open>MERR\<close>. Either
  loop visits its configured table (the defaults, then the new keys as written) with the
  array-index patterns first, in ascending numeric order, and the other patterns after them
  in the configured order; it visits the table in the configured order when no configured
  pattern is an array index.
\<close>

theorem hints_order:
  assumes "normalizeCode now input config = Inr r"
  shows "hints r =
           (if \<exists>c \<in> set (normalized r). \<not> isUpperAlnum c then [''INVALID:CHAR''] else [])
           @ map (\<lambda>e. ''PREFIX:'' @ fst e)
               (filter (\<lambda>e. includes' (normalized r) (fst e)) (prefixLoopOrder config))
           @ map (\<lambda>e. if fst e = ''MERR'' then ''EVENT:MERRY'' else ''KEYWORD:'' @ fst e)
               (filter (\<lambda>e. includes' (normalized r) (fst e)) (keywordLoopOrder config))
       \<and> prefixLoopOrder config =
            sort_key (\<lambda>e. parseNat (fst e))
              (filter (\<lambda>e. isArrayIndex (fst e)) (configuredPrefixOrder config))
            @ filter (\<lambda>e. \<not> isArrayIndex (fst e)) (configuredPrefixOrder config)
       \<and> keywordLoopOrder config =
            sort_key (\<lambda>e. parseNat (fst e))
              (filter (\<lambda>e. isArrayIndex (fst e)) (configuredKeywordOrder config))
            @ filter (\<lambda>e. \<not> isArrayIndex (fst e)) (configuredKeywordOrder config)
       \<and> ((\<forall>e \<in> set (configuredPrefixOrder config). \<not> isArrayIndex (fst e)) \<longrightarrow>
            prefixLoopOrder config = configuredPrefixOrder config)
       \<and> ((\<forall>e \<in> set (configuredKeywordOrder config). \<not> isArrayIndex (fst e)) \<longrightarrow>
            keywordLoopOrder config = configuredKeywordOrder config)"
proof -
  from assms obtain rawCode where r: "r = resultOf now input config rawCode"
    by (auto simp: normalizeCode_Inr_iff)
  have n: "normalized r = normalizeText rawCode" by (simp add: r resultOf_def)
  have "hints r = (if hasInvalidChar (normalized r) then [''INVALID:CHAR''] else [])
              @ map (\<lambda>e. ''PREFIX:'' @ fst e) (matching (normalized r) (prefixLoopOrder config))
              @ map (\<lambda>e. keywordHint (fst e)) (matching (normalized r) (keywordLoopOrder config))"
    by (simp add: r hints_shape n [symmetric])
  then have "hints r =
           (if \<exists>c \<in> set (normalized r). \<not> isUpperAlnum c then [''INVALID:CHAR''] else [])
           @ map (\<lambda>e. ''PREFIX:'' @ fst e)
               (filter (\<lambda>e. includes' (normalized r) (fst e)) (prefixLoopOrder config))
           @ map (\<lambda>e. if fst e = ''MERR'' then ''EVENT:MERRY'' else ''KEYWORD:'' @ fst e)
               (filter (\<lambda>e. includes' (normalized r) (fst e)) (keywordLoopOrder config))"
    by (simp add: hasInvalidChar_iff matching_def keywordHint_def)
  moreover have "prefixLoopOrder config =
      sort_key (\<lambda>e. parseNat (fst e))
        (filter (\<lambda>e. isArrayIndex (fst e)) (configuredPrefixOrder config))
      @ filter (\<lambda>e. \<not> isArrayIndex (fst e)) (configuredPrefixOrder config)"
    by (simp add: prefixLoopOrder_entries entries_def)
  moreover have "keywordLoopOrder config =
      sort_key (\<lambda>e. parseNat (fst e))
        (filter (\<lambda>e. isArrayIndex (fst e)) (configuredKeywordOrder config))
      @ filter (\<lambda>e. \<not> isArrayIndex (fst e)) (configuredKeywordOrder config)"
    by (simp add: keywordLoopOrder_entries entries_def)
  moreover have "(\<forall>e \<in> set (configuredPrefixOrder config). \<not> isArrayIndex (fst e)) \<longrightarrow>
      prefixLoopOrder config = configuredPrefixOrder config"
    by (simp add: prefixLoopOrder_entries entries_without_index)
  moreover have "(\<forall>e \<in> set (configuredKeywordOrder config). \<not> isArrayIndex (fst e)) \<longrightarrow>
      keywordLoopOrder config = configuredKeywordOrder config"
    by (simp add: keywordLoopOrder_entries entries_without_index)
  ultimately show ?thesis by blast
qed

theorem hints_order_witness:
  "normalizeCode ''2025-12-31T12:00:00.000Z'' (JStr ''cash merry ikes!'') ConfigOmitted =
     Inr \<lparr>normalized = ''CASHMERRYIKES!'', raw = ''cash merry ikes!'', isValidFormat = False,
          probableType = ''class_reroll'',
          hints = [''INVALID:CHAR'', ''PREFIX:IKES'', ''EVENT:MERRY'', ''KEYWORD:CASH''],
          status = ''unknown'', length' = 14, createdAt = ''2025-12-31T12:00:00.000Z'',
          meta = None\<rparr>
   \<and> [''INVALID:CHAR'', ''PREFIX:IKES'', ''EVENT:MERRY'', ''KEYWORD:CASH''] =
        (if \<exists>c \<in> set ''CASHMERRYIKES!''. \<not> isUpperAlnum c then [''INVALID:CHAR''] else [])
        @ map (\<lambda>e. ''PREFIX:'' @ fst e)
            (filter (\<lambda>e. includes' ''CASHMERRYIKES!'' (fst e)) (prefixLoopOrder ConfigOmitted))
        @ map (\<lambda>e. if fst e = ''MERR'' then ''EVENT:MERRY'' else ''KEYWORD:'' @ fst e)
            (filter (\<lambda>e. includes' ''CASHMERRYIKES!'' (fst e)) (keywordLoopOrder ConfigOmitted))
   \<and> prefixLoopOrder ConfigOmitted = configuredPrefixOrder ConfigOmitted
   \<and> keywordLoopOrder ConfigOmitted = configuredKeywordOrder ConfigOmitted"
proof -
  let ?R = "\<lparr>normalized = ''CASHMERRYIKES!'', raw = ''cash merry ikes!'', isValidFormat = False,
          probableType = ''class_reroll'',
          hints = [''INVALID:CHAR'', ''PREFIX:IKES'', ''EVENT:MERRY'', ''KEYWORD:CASH''],
          status = ''unknown'', length' = 14, createdAt = ''2025-12-31T12:00:00.000Z'',
          meta = None\<rparr>"
  have h: "normalizeCode ''2025-12-31T12:00:00.000Z'' (JStr ''cash merry ikes!'') ConfigOmitted = Inr ?R"
    by code_simp
  have cp: "configuredPrefixOrder ConfigOmitted = [(''IKES'', ''class_reroll'')]"
    by code_simp
  have ck: "configuredKeywordOrder ConfigOmitted =
     [(''MERR'', ''event_reward''), (''STAT'', ''stat_reset''), (''COIN'', ''currency''),
      (''GEM'', ''currency''), (''CASH'', ''currency'')]"
    by code_simp
  have np: "\<forall>e \<in> set (configuredPrefixOrder ConfigOmitted). \<not> isArrayIndex (fst e)"
    unfolding cp by code_simp
  have nk: "\<forall>e \<in> set (configuredKeywordOrder ConfigOmitted). \<not> isArrayIndex (fst e)"
    unfolding ck by code_simp
  note t = hints_order [OF h]
  have a: "[''INVALID:CHAR'', ''PREFIX:IKES'', ''EVENT:MERRY'', ''KEYWORD:CASH''] =
        (if \<exists>c \<in> set ''CASHMERRYIKES!''. \<not> isUpperAlnum c then [''INVALID:CHAR''] else [])
        @ map (\<lambda>e. ''PREFIX:'' @ fst e)
            (filter (\<lambda>e. includes' ''CASHMERRYIKES!'' (fst e)) (prefixLoopOrder ConfigOmitted))
        @ map (\<lambda>e. if fst e = ''MERR'' then ''EVENT:MERRY'' else ''KEYWORD:'' @ fst e)
            (filter (\<lambda>e. includes' ''CASHMERRYIKES!'' (fst e)) (keywordLoopOrder ConfigOmitted))"
    using t [THEN conjunct1] by (simp only: result.simps)
  have b: "prefixLoopOrder ConfigOmitted = configuredPrefixOrder ConfigOmitted"
    using t [THEN conjunct2, THEN conjunct2, THEN conjunct2, THEN conjunct1] np by blast
  have c: "keywordLoopOrder ConfigOmitted = configuredKeywordOrder ConfigOmitted"
    using t [THEN conjunct2, THEN conjunct2, THEN conjunct2, THEN conjunct2] nk by blast
  show ?thesis
    by (intro conjI) (rule h a b c)+
qed

text \<open>
  With the prefix \<^verbatim>\<open>2025\<close> and the keyword \<^verbatim>\<open>25\<close> added to the defaults, the hints
  of \<^verbatim>\<open>IKES-STAT-2025\<close> name \<^verbatim>\<open>2025\<close> before \<^verbatim>\<open>IKES\<close> and \<^verbatim>\<open>25\<close> before
  \<^verbatim>\<open>STAT\<close>, the reverse of the configured order.
\<close>

theorem hints_not_in_configured_order:
  "normalizeCode ''2025-12-31T12:00:00.000Z'' (JStr ''IKES-STAT-2025'')
        (ConfigObj \<lparr>minLength = None, maxLength = None,
           prefixes' = [(''2025'', ''currency'')],
           keywords' = [(''25'', ''currency'')]\<rparr>) =
     Inr \<lparr>normalized = ''IKESSTAT2025'', raw = ''IKES-STAT-2025'', isValidFormat = True,
          probableType = ''currency'',
          hints = [''PREFIX:2025'', ''PREFIX:IKES'', ''KEYWORD:25'', ''KEYWORD:STAT''],
          status = ''unknown'', length' = 12, createdAt = ''2025-12-31T12:00:00.000Z'',
          meta = None\<rparr>
   \<and> map (\<lambda>e. ''PREFIX:'' @ fst e)
        (filter (\<lambda>e. includes' ''IKESSTAT2025'' (fst e))
           (configuredPrefixOrder
              (ConfigObj \<lparr>minLength = None, maxLength = None,
                 prefixes' = [(''2025'', ''currency'')],
                 keywords' = [(''25'', ''currency'')]\<rparr>)))
     = [''PREFIX:IKES'', ''PREFIX:2025'']
   \<and> map (\<lambda>e. if fst e = ''MERR'' then ''EVENT:MERRY'' else ''KEYWORD:'' @ fst e)
        (filter (\<lambda>e. includes' ''IKESSTAT2025'' (fst e))
           (configuredKeywordOrder
              (ConfigObj \<lparr>minLength = None, maxLength = None,
                 prefixes' = [(''2025'', ''currency'')],
                 keywords' = [(''25'', ''currency'')]\<rparr>)))
     = [''KEYWORD:STAT'', ''KEYWORD:25'']"
  by code_simp

subsection \<open>Conversion to text and the batch loop\<close>

lemma toString_coercible:
  "(\<exists>s. toString v = Inr s) \<longleftrightarrow> coercible v"
  "(\<exists>s. arrayJoin xs = Inr s) \<longleftrightarrow> list_all coercible xs"
proof (induction v and xs rule: toString_arrayJoin.induct)
  case (7 fs conv)
  then show ?case by (cases conv) simp_all
next
  case (9 x xs)
  show ?case
  proof (cases "x = JUndefined \<or> x = JNull")
    case True
    then have "coercible x" by auto
    with True 9 show ?thesis by (auto split: sum.splits)
  next
    case False
    with 9 show ?thesis by (auto split: sum.splits)
  qed
qed auto

lemma toString_raises_iff: "(\<exists>e. toString v = Inl e) \<longleftrightarrow> \<not> coercible v"
proof -
  have "(\<exists>e. toString v = Inl e) \<longleftrightarrow> \<not> (\<exists>s. toString v = Inr s)"
    by (cases "toString v") auto
  then show ?thesis by (simp add: toString_coercible)
qed





lemma mapE_Inr_iff: "mapE f xs = Inr ys \<longleftrightarrow> list_all2 (\<lambda>x y. f x = Inr y) xs ys"
proof (induction xs arbitrary: ys)
  case Nil
  then show ?case by auto
next
  case (Cons x xs)
  show ?case
  proof (cases "f x")
    case (Inl e)
    then show ?thesis by (cases ys) auto
  next
    case fx: (Inr y)
    show ?thesis
    proof (cases "mapE f xs")
      case (Inl e)
      then have "\<not> list_all2 (\<lambda>x y. f x = Inr y) xs zs" for zs
        using Cons.IH [of zs] by simp
      then show ?thesis using fx Inl by (cases ys) auto
    next
      case (Inr zs)
      then have "list_all2 (\<lambda>x y. f x = Inr y) xs zs' \<longleftrightarrow> zs' = zs" for zs'
        using Cons.IH [of zs'] by auto
      then show ?thesis using fx Inr by (cases ys) auto
    qed
  qed
qed

lemma mapE_Inl_iff: "(\<exists>e. mapE f xs = Inl e) \<longleftrightarrow> (\<exists>x \<in> set xs. \<exists>e. f x = Inl e)"
  by (induction xs) (auto split: sum.splits)

lemma resultOf_default:
  "resultOf now input (ConfigObj emptyConfig) rawCode = resultOf now input ConfigOmitted rawCode"
  by (simp add: resultOf_def scanResult_def prefixLoopOrder_def keywordLoopOrder_def
      minLengthOf_def maxLengthOf_def)

lemma normalizeCode_default:
  "normalizeCode now input (ConfigObj emptyConfig) = normalizeCode now input ConfigOmitted"
  by (simp add: normalizeCode_unfold resultOf_default cong: sum.case_cong)

lemma normalizeCodes_array:
  "normalizeCodes clock (JArr xs) config =
     mapE (\<lambda>(i, input). normalizeCode (clock i) input config) (zip [0..<length xs] xs)"
  by (cases config) (simp_all add: normalizeCodes_def normalizeCode_default)

lemma normalizeCodes_non_array: "(\<And>xs. v \<noteq> JArr xs) \<Longrightarrow> normalizeCodes clock v config = Inr []"
  by (cases v) (auto simp: normalizeCodes_def Let_def)

lemma normalizeCodes_Inr_iff:
  "normalizeCodes clock (JArr xs) config = Inr rs \<longleftrightarrow>
     length rs = length xs
     \<and> (\<forall>i < length xs. normalizeCode (clock i) (xs ! i) config = Inr (rs ! i))"
  by (auto simp: normalizeCodes_array mapE_Inr_iff list_all2_conv_all_nth)

lemma normalizeCodes_Inl_iff:
  "(\<exists>e. normalizeCodes clock (JArr xs) config = Inl e) \<longleftrightarrow>
     (\<exists>i < length xs. \<exists>e. normalizeCode (clock i) (xs ! i) config = Inl e)"
proof -
  have "(\<exists>p \<in> set (zip [0..<length xs] xs). \<exists>e. (case p of (i, input) \<Rightarrow> normalizeCode (clock i) input config) = Inl e)
          \<longleftrightarrow> (\<exists>i < length xs. \<exists>e. normalizeCode (clock i) (xs ! i) config = Inl e)"
    by (force simp: in_set_conv_nth)
  then show ?thesis by (simp add: normalizeCodes_array mapE_Inl_iff)
qed



subsection \<open>The raw text of an input that is not an object\<close>




subsection \<open>When a call raises\<close>




subsection \<open>The batch\<close>

text \<open>
  C4, as amended. For every array \<open>xs\<close> and every configuration: \<^verbatim>\<open>normalizeCodes\<close>
  returns the sequence \<open>rs\<close> exactly when \<open>rs\<close> has the length of \<open>xs\<close> and, for every
  index \<open>i\<close>, the call of \<^verbatim>\<open>normalizeCode\<close> on element \<open>i\<close> with the same
  configuration, at the time element \<open>i\<close> is processed, returns \<open>rs ! i\<close>; it raises
  exactly when the call on some element raises. For every argument that is not an array it
  returns the empty sequence.
\<close>

theorem normalizeCodes_elementwise:
  "(normalizeCodes clock (JArr xs) config = Inr rs \<longleftrightarrow>
      length rs = length xs
      \<and> (\<forall>i < length xs. normalizeCode (clock i) (xs ! i) config = Inr (rs ! i)))
   \<and> ((\<exists>e. normalizeCodes clock (JArr xs) config = Inl e) \<longleftrightarrow>
      (\<exists>i < length xs. \<exists>e. normalizeCode (clock i) (xs ! i) config = Inl e))
   \<and> ((\<forall>ys. v \<noteq> JArr ys) \<longrightarrow> normalizeCodes clock v config = Inr [])"
  using normalizeCodes_Inr_iff [of clock xs config rs] normalizeCodes_Inl_iff [of clock xs config]
    normalizeCodes_non_array [of v clock config]
  by blast

theorem normalizeCodes_elementwise_witness:
  "normalizeCodes (\<lambda>i. if i = 0 then ''2025-12-31T12:00:00.000Z'' else ''2025-12-31T12:00:00.001Z'')
      (JArr [JStr '' 30IKES '', JStr ''bad code!!'']) ConfigOmitted =
     Inr [\<lparr>normalized = ''30IKES'', raw = '' 30IKES '', isValidFormat = True,
            probableType = ''class_reroll'', hints = [''PREFIX:IKES''], status = ''unknown'',
            length' = 6, createdAt = ''2025-12-31T12:00:00.000Z'', meta = None\<rparr>,
          \<lparr>normalized = ''BADCODE!!'', raw = ''bad code!!'', isValidFormat = False,
            probableType = ''unknown'', hints = [''INVALID:CHAR''], status = ''unknown'',
            length' = 9, createdAt = ''2025-12-31T12:00:00.001Z'', meta = None\<rparr>]
   \<and> normalizeCodes (\<lambda>i. if i = 0 then ''2025-12-31T12:00:00.000Z'' else ''2025-12-31T12:00:00.001Z'')
        (JStr ''not-an-array'') ConfigOmitted = Inr []"
proof -
  let ?clock = "\<lambda>i::nat. if i = 0 then ''2025-12-31T12:00:00.000Z'' else ''2025-12-31T12:00:00.001Z''"
  let ?xs = "[JStr '' 30IKES '', JStr ''bad code!!'']"
  let ?r0 = "\<lparr>normalized = ''30IKES'', raw = '' 30IKES '', isValidFormat = True,
            probableType = ''class_reroll'', hints = [''PREFIX:IKES''], status = ''unknown'',
            length' = 6, createdAt = ''2025-12-31T12:00:00.000Z'', meta = None\<rparr>"
  let ?r1 = "\<lparr>normalized = ''BADCODE!!'', raw = ''bad code!!'', isValidFormat = False,
            probableType = ''unknown'', hints = [''INVALID:CHAR''], status = ''unknown'',
            length' = 9, createdAt = ''2025-12-31T12:00:00.001Z'', meta = None\<rparr>"
  have h0: "normalizeCode ''2025-12-31T12:00:00.000Z'' (JStr '' 30IKES '') ConfigOmitted = Inr ?r0"
    by code_simp
  have h1: "normalizeCode ''2025-12-31T12:00:00.001Z'' (JStr ''bad code!!'') ConfigOmitted = Inr ?r1"
    by code_simp
  have e: "\<forall>i < length ?xs. normalizeCode (?clock i) (?xs ! i) ConfigOmitted = Inr ([?r0, ?r1] ! i)"
    using h0 h1 by (auto simp: less_Suc_eq)
  have n: "\<forall>ys. JStr ''not-an-array'' \<noteq> JArr ys" by simp
  from normalizeCodes_elementwise [of ?clock ?xs ConfigOmitted "[?r0, ?r1]" "JStr ''not-an-array''"] e n
  show ?thesis by simp
qed

text \<open>
  An element whose call raises ends the batch with that error, although the call on the
  next element would return; and with the configuration \<^verbatim>\<open>null\<close> the call on the
  first element of an array raises.
\<close>

theorem batch_halts_on_raising_element:
  "normalizeCodes (\<lambda>i. ''2025-12-31T12:00:00.000Z'')
      (JArr [plainObject [(''code'', plainObject [(''toString'', JNum Zero)])], JStr ''30IKES'']) ConfigOmitted
     = Inl TypeError
   \<and> normalizeCodes (\<lambda>i. ''2025-12-31T12:00:00.000Z'')
      (JArr [JStr ''30IKES'', JStr ''Merristmas'']) ConfigNull
     = Inl TypeError
   \<and> normalizeCode ''2025-12-31T12:00:00.000Z'' (JStr ''30IKES'') ConfigOmitted =
     Inr \<lparr>normalized = ''30IKES'', raw = ''30IKES'', isValidFormat = True,
          probableType = ''class_reroll'', hints = [''PREFIX:IKES''], status = ''unknown'',
          length' = 6, createdAt = ''2025-12-31T12:00:00.000Z'', meta = None\<rparr>"
  by code_simp

end
